theory Spec2Isabelle
  imports Main
begin

section \<open>Text: the string operations the importer uses\<close>

text \<open>
  A Python string is a sequence of code points. It is modelled as a HOL string whose
  characters are the code points below 256, and on that type the operations below
  are the ones of Python:
  \<^item> \<open>str.strip\<close>, \<open>str.isspace\<close> and the pattern \<open>\s\<close> take as whitespace the
    code points 9 to 13, 28 to 32, 133 and 160;
  \<^item> the pattern \<open>\d\<close> and \<open>int\<close> take as decimal digits the code points 48
    to 57; \<open>str.isdigit\<close> accepts these and the superscript digits 178, 179, 185;
  \<^item> \<open>str.lower\<close> maps 65 to 90, 192 to 214 and 216 to 222 to the code point 32
    above, and leaves every other code point as it is.
  Code points from 256 on are outside the type.
\<close>

definition isspace :: "char \<Rightarrow> bool" where
  "isspace c =
     (let n = (of_char c :: nat)
      in (9 \<le> n \<and> n \<le> 13) \<or> (28 \<le> n \<and> n \<le> 32) \<or> n = 133 \<or> n = 160)"

definition isdecimal :: "char \<Rightarrow> bool" where
  "isdecimal c = (let n = (of_char c :: nat) in 48 \<le> n \<and> n \<le> 57)"

definition isdigit :: "char \<Rightarrow> bool" where
  "isdigit c = (isdecimal c \<or> (let n = (of_char c :: nat) in n = 178 \<or> n = 179 \<or> n = 185))"

definition digit_val :: "char \<Rightarrow> int" where
  "digit_val c = int (of_char c) - 48"

definition isupper :: "char \<Rightarrow> bool" where
  "isupper c =
     (let n = (of_char c :: nat)
      in (65 \<le> n \<and> n \<le> 90) \<or> (192 \<le> n \<and> n \<le> 214) \<or> (216 \<le> n \<and> n \<le> 222))"

definition lower_char :: "char \<Rightarrow> char" where
  "lower_char c = (if isupper c then char_of ((of_char c :: nat) + 32) else c)"

definition lower :: "string \<Rightarrow> string" where
  "lower s = map lower_char s"

definition lstrip :: "string \<Rightarrow> string" where
  "lstrip s = dropWhile isspace s"

definition rstrip :: "string \<Rightarrow> string" where
  "rstrip s = rev (dropWhile isspace (rev s))"

definition strip :: "string \<Rightarrow> string" where
  "strip s = rstrip (lstrip s)"

text \<open>\<open>int(s)\<close> on a string of decimal digits.\<close>

definition int_of_digits :: "string \<Rightarrow> int" where
  "int_of_digits s = foldl (\<lambda>acc c. 10 * acc + digit_val c) 0 s"

section \<open>Line parser\<close>

text \<open>
  \<open>parse_title_year\<close> searches the term with the pattern \<open>\((\d{4})\)\s*$\<close>.
  \<open>match_year_at\<close> is the pattern anchored at the head of its argument: an opening
  parenthesis, four digits, a closing parenthesis, then whitespace up to the end.
  \<open>re_search\<close> tries the start positions from left to right, as \<open>re.search\<close> does,
  and returns the start of the match with the number of group 1.
\<close>

fun match_year_at :: "string \<Rightarrow> int option" where
  "match_year_at (p # d1 # d2 # d3 # d4 # q # rest) =
     (if p = CHR ''('' \<and> isdecimal d1 \<and> isdecimal d2 \<and> isdecimal d3 \<and> isdecimal d4
         \<and> q = CHR '')'' \<and> list_all isspace rest
      then Some (int_of_digits [d1, d2, d3, d4]) else None)"
| "match_year_at _ = None"

fun re_search :: "string \<Rightarrow> (nat \<times> int) option" where
  "re_search [] = None"
| "re_search (c # cs) =
     (case match_year_at (c # cs) of
        Some y \<Rightarrow> Some (0, y)
      | None \<Rightarrow> (case re_search cs of None \<Rightarrow> None | Some (i, y) \<Rightarrow> Some (Suc i, y)))"

definition parse_title_year :: "string \<Rightarrow> string \<times> int option" where
  "parse_title_year term =
     (case re_search term of
        Some (start, y) \<Rightarrow> (strip (take start term), Some y)
      | None \<Rightarrow> (strip term, None))"


section \<open>Data model\<close>

text \<open>
  A lookup candidate is the JSON object of the catalogue service. The importer reads
  three of its keys with \<open>dict.get\<close>, so an absent key and a null value are both
  \<open>None\<close>; the identifier and the year are JSON integers. The rest of the object
  is forwarded unchanged on add.
\<close>

record movie =
  tmdbId :: "int option"
  title :: "string option"
  year :: "int option"
  payload :: "(string \<times> string) list"

text \<open>
  The module-level settings, the flags set from the command line, and the
  interpreter's limit on the digits of a string that \<open>int\<close> converts (4300 by
  default where the interpreter has the limit, none where it has not).
\<close>

record config =
  STRICT_YEAR_MATCH :: bool
  INTERACTIVE_ON_ISSUES :: bool
  CONFIRM_EACH_ADD_DEFAULT :: bool
  DRY_RUN :: bool
  AUTO_ADD :: bool
  YES_ALL :: bool
  MAX_ADD :: "nat option"
  INT_MAX_STR_DIGITS :: "nat option"

definition MAX_CHOICES_TO_SHOW :: nat where
  "MAX_CHOICES_TO_SHOW = 8"

datatype exn = EOFError | RequestException | ValueError | TypeError | IndexError

text \<open>A call either returns a value or raises an exception of class \<open>Exception\<close>.\<close>

datatype 'a result = Ret 'a | Raised exn

text \<open>
  The lines written by \<open>log\<close> during resolution and in the main loop. The events
  of the main loop carry the line number \<open>idx + 1\<close>; those of an outcome with a
  resolved candidate carry its identifier.
\<close>

datatype event =
    YEAR_MISS string int
  | AMBIG string "movie list"
  | STOP
  | MISS int string
  | SKIP int string
  | ERR_NO_ID int string
  | DUP int int
  | DRY int int
  | USER_SKIP int int
  | ADD int int
  | ERR_HTTP int nat
  | FAIL int exn
  | FATAL

text \<open>
  The stored resume state: the file may be absent, may fail to be read or parsed, or
  holds a JSON value. JSON numbers are integers here; object keys are distinct.
\<close>

datatype json = JNull | JBool bool | JInt int | JStr string
  | JList "json list" | JDict "(string \<times> json) list"

datatype state_file = Missing | Unreadable | Content json

text \<open>
  The mutable state of one run: the operator's remaining answers on standard input
  (\<open>input\<close> raises \<open>EOFError\<close> when none is left), the two sticky flags, the
  counters of \<open>stats\<close>, the duplicate index, the dry-run hits, the state file and
  whether it can be written, the add requests sent so far, and the log.
\<close>

record run =
  stdin :: "string list"
  always_continue :: bool
  always_yes_add :: bool
  processed :: nat
  would_add :: nat
  duplicates :: nat
  misses :: nat
  errors :: nat
  skipped :: nat
  added :: nat
  existing_tmdb :: "int set"
  dryrun_hits :: "movie list"
  state_file :: state_file
  writable :: bool
  posted :: "movie list"
  log :: "event list"

definition log_event :: "event \<Rightarrow> run \<Rightarrow> run" where
  "log_event e st = st\<lparr>log := log st @ [e]\<rparr>"

section \<open>Conversion to integers\<close>

text \<open>
  \<open>int(x)\<close> on a string. Leading and trailing whitespace is dropped, which for
  \<open>int\<close> is the code points 9 to 13 and 32 and the whitespace from 127 on (28 to 31
  are not dropped); then come an optional sign and decimal digits in which single
  underscores may separate digits. Anything else raises \<open>ValueError\<close>, and so does
  a number with more digits than the interpreter's limit, where it has one.
\<close>

definition int_space :: "char \<Rightarrow> bool" where
  "int_space c =
     (let n = (of_char c :: nat) in (9 \<le> n \<and> n \<le> 13) \<or> n = 32 \<or> n = 133 \<or> n = 160)"

fun no_double_underscore :: "string \<Rightarrow> bool" where
  "no_double_underscore (a # b # cs) =
     (\<not> (a = CHR ''_'' \<and> b = CHR ''_'') \<and> no_double_underscore (b # cs))"
| "no_double_underscore _ = True"

definition int_literal :: "string \<Rightarrow> bool" where
  "int_literal body =
     (body \<noteq> [] \<and> isdecimal (hd body) \<and> isdecimal (last body)
      \<and> list_all (\<lambda>c. isdecimal c \<or> c = CHR ''_'') body \<and> no_double_underscore body)"

definition over_limit :: "config \<Rightarrow> string \<Rightarrow> bool" where
  "over_limit cfg body =
     (case INT_MAX_STR_DIGITS cfg of
        None \<Rightarrow> False
      | Some n \<Rightarrow> n < length (filter isdecimal body))"

definition int_of_str :: "config \<Rightarrow> string \<Rightarrow> int option" where
  "int_of_str cfg s =
     (let t = rev (dropWhile int_space (rev (dropWhile int_space s)));
          neg = (t \<noteq> [] \<and> hd t = CHR ''-'');
          body = (if t \<noteq> [] \<and> (hd t = CHR ''-'' \<or> hd t = CHR ''+'') then tl t else t)
      in if int_literal body \<and> \<not> over_limit cfg body
         then Some ((if neg then - 1 else 1) * int_of_digits (filter isdecimal body))
         else None)"

fun py_int :: "config \<Rightarrow> json \<Rightarrow> exn + int" where
  "py_int cfg (JInt n) = Inr n"
| "py_int cfg (JBool b) = Inr (if b then 1 else 0)"
| "py_int cfg (JStr s) = (case int_of_str cfg s of None \<Rightarrow> Inl ValueError | Some n \<Rightarrow> Inr n)"
| "py_int cfg JNull = Inl TypeError"
| "py_int cfg (JList xs) = Inl TypeError"
| "py_int cfg (JDict d) = Inl TypeError"

section \<open>Prompts\<close>

text \<open>
  Each prompt reads answers until one is recognised. The functions recurse over the
  answers still on standard input and store what is left when they return.
\<close>

fun prompt_continue_loop :: "string list \<Rightarrow> run \<Rightarrow> bool result \<times> run" where
  "prompt_continue_loop [] st = (Raised EOFError, st\<lparr>stdin := []\<rparr>)"
| "prompt_continue_loop (a # rest) st =
     (let ans = lower (strip a) in
      if ans \<in> set ['''', ''y'', ''yes''] then (Ret True, st\<lparr>stdin := rest\<rparr>)
      else if ans \<in> set [''n'', ''no'', ''q'', ''quit''] then (Ret False, st\<lparr>stdin := rest\<rparr>)
      else if ans \<in> set [''a'', ''always'']
        then (Ret True, st\<lparr>stdin := rest, always_continue := True\<rparr>)
      else prompt_continue_loop rest st)"

definition prompt_continue :: "config \<Rightarrow> run \<Rightarrow> bool result \<times> run" where
  "prompt_continue cfg st =
     (if \<not> INTERACTIVE_ON_ISSUES cfg \<or> always_continue st then (Ret True, st)
      else prompt_continue_loop (stdin st) st)"

fun prompt_confirm_add_loop :: "config \<Rightarrow> string list \<Rightarrow> run \<Rightarrow> bool result \<times> run" where
  "prompt_confirm_add_loop cfg [] st = (Raised EOFError, st\<lparr>stdin := []\<rparr>)"
| "prompt_confirm_add_loop cfg (a # rest) st =
     (let ans = lower (strip a) in
      if ans \<in> set ['''', ''y'', ''yes'']
        then (Ret True, if YES_ALL cfg then st\<lparr>stdin := rest, always_yes_add := True\<rparr>
                        else st\<lparr>stdin := rest\<rparr>)
      else if ans \<in> set [''n'', ''no'', ''s'', ''skip''] then (Ret False, st\<lparr>stdin := rest\<rparr>)
      else if ans \<in> set [''a'', ''all'', ''always'']
        then (Ret True, st\<lparr>stdin := rest, always_yes_add := True\<rparr>)
      else prompt_confirm_add_loop cfg rest st)"

definition prompt_confirm_add :: "config \<Rightarrow> run \<Rightarrow> bool result \<times> run" where
  "prompt_confirm_add cfg st =
     (if AUTO_ADD cfg then (Ret True, st)
      else if always_yes_add st then (Ret True, st)
      else prompt_confirm_add_loop cfg (stdin st) st)"

section \<open>Resolution engine\<close>

text \<open>
  \<open>choose_from_results\<close> returns a candidate, \<open>None\<close> or the string \<open>ABORT\<close>.
\<close>

datatype selection = Selected movie | NoSelection | ABORT

definition str_isdigit :: "string \<Rightarrow> bool" where
  "str_isdigit s = (s \<noteq> [] \<and> list_all isdigit s)"

definition year_matches :: "movie list \<Rightarrow> int \<Rightarrow> movie list" where
  "year_matches results desired_year = filter (\<lambda>m. year m = Some desired_year) results"

text \<open>\<open>(m.get("title") or "")\<close>\<close>

definition title_text :: "movie \<Rightarrow> string" where
  "title_text m = (case title m of None \<Rightarrow> '''' | Some t \<Rightarrow> t)"

definition exact_title :: "string \<Rightarrow> movie list \<Rightarrow> movie list" where
  "exact_title term filtered =
     (let title_only = fst (parse_title_year term)
      in filter (\<lambda>m. lower (strip (title_text m)) = lower title_only) filtered)"

text \<open>The exact-match shortcut: the candidate it returns, if it returns one.\<close>

definition shortcut :: "string \<Rightarrow> movie list \<Rightarrow> int option \<Rightarrow> movie option" where
  "shortcut term filtered desired_year =
     (if length (exact_title term filtered) = 1 \<and> desired_year = None
      then Some (exact_title term filtered ! 0) else None)"

text \<open>
  The answer loop of the disambiguation prompt, over the candidates shown. An answer
  made of digits is converted with \<open>int\<close>, which raises \<open>ValueError\<close> on a
  superscript digit and on a number over the interpreter's limit.
\<close>

fun choose_loop ::
  "config \<Rightarrow> movie list \<Rightarrow> string list \<Rightarrow> run \<Rightarrow> selection result \<times> run" where
  "choose_loop cfg shown [] st = (Raised EOFError, st\<lparr>stdin := []\<rparr>)"
| "choose_loop cfg shown (a # rest) st =
     (let ans = lower (strip a) in
      if ans = '''' then (Ret NoSelection, st\<lparr>stdin := rest\<rparr>)
      else if ans \<in> set [''s'', ''skip''] then (Ret NoSelection, st\<lparr>stdin := rest\<rparr>)
      else if ans \<in> set [''q'', ''quit''] then (Ret ABORT, st\<lparr>stdin := rest\<rparr>)
      else if ans = ''a'' then
        (case shown of
           [] \<Rightarrow> (Raised IndexError, st\<lparr>stdin := rest, always_continue := True\<rparr>)
         | m # _ \<Rightarrow> (Ret (Selected m), st\<lparr>stdin := rest, always_continue := True\<rparr>))
      else if str_isdigit ans then
        (case int_of_str cfg ans of
           None \<Rightarrow> (Raised ValueError, st\<lparr>stdin := rest\<rparr>)
         | Some i \<Rightarrow>
             if 0 \<le> i \<and> nat i < length shown
             then (Ret (Selected (shown ! nat i)), st\<lparr>stdin := rest\<rparr>)
             else choose_loop cfg shown rest st)
      else choose_loop cfg shown rest st)"

text \<open>
  The part of \<open>choose_from_results\<close> after the year filter: the empty set, the
  shortcut, the disambiguation prompt, and the first candidate as the default.
\<close>

definition resolve_filtered ::
  "config \<Rightarrow> string \<Rightarrow> movie list \<Rightarrow> int option \<Rightarrow> run \<Rightarrow> selection result \<times> run" where
  "resolve_filtered cfg term filtered desired_year st =
     (if filtered = [] then (Ret NoSelection, st)
      else case shortcut term filtered desired_year of
        Some m \<Rightarrow> (Ret (Selected m), st)
      | None \<Rightarrow>
          if INTERACTIVE_ON_ISSUES cfg \<and> \<not> always_continue st \<and> length filtered > 1
          then (let shown = take MAX_CHOICES_TO_SHOW filtered;
                    st1 = log_event (AMBIG term shown) st
                in choose_loop cfg shown (stdin st1) st1)
          else (Ret (Selected (filtered ! 0)), st))"

definition choose_from_results ::
  "config \<Rightarrow> string \<Rightarrow> movie list \<Rightarrow> int option \<Rightarrow> run \<Rightarrow> selection result \<times> run" where
  "choose_from_results cfg term results desired_year st =
     (case desired_year of
        None \<Rightarrow> resolve_filtered cfg term results desired_year st
      | Some y \<Rightarrow>
          if \<not> STRICT_YEAR_MATCH cfg then resolve_filtered cfg term results desired_year st
          else if year_matches results y \<noteq> []
            then resolve_filtered cfg term (year_matches results y) desired_year st
          else (case prompt_continue cfg (log_event (YEAR_MISS term y) st) of
                  (Raised e, st2) \<Rightarrow> (Raised e, st2)
                | (Ret False, st2) \<Rightarrow> (Ret ABORT, st2)
                | (Ret True, st2) \<Rightarrow> resolve_filtered cfg term results desired_year st2))"

section \<open>Progress tracker\<close>

definition no_progress :: "(string \<times> json) list" where
  "no_progress = [(''next_index'', JInt 0)]"

text \<open>
  \<open>load_state\<close> returns a dictionary. A missing file, a failing read or parse, and
  a JSON value that is not an object give \<open>no_progress\<close>; an object with the key
  \<open>next_index\<close> is returned as it is; the older key \<open>last_index\<close> is converted
  with \<open>int\<close> inside the \<open>try\<close>.
\<close>

definition load_state :: "config \<Rightarrow> state_file \<Rightarrow> (string \<times> json) list" where
  "load_state cfg f =
     (case f of
        Missing \<Rightarrow> no_progress
      | Unreadable \<Rightarrow> no_progress
      | Content (JDict data) \<Rightarrow>
          if map_of data ''next_index'' \<noteq> None then data
          else (case map_of data ''last_index'' of
                  Some v \<Rightarrow> (case py_int cfg v of
                               Inr n \<Rightarrow> [(''next_index'', JInt n)]
                             | Inl e \<Rightarrow> no_progress)
                | None \<Rightarrow> data)
      | Content _ \<Rightarrow> no_progress)"

text \<open>\<open>main\<close>: \<open>start_index = int(state.get("next_index", 0))\<close>, outside any \<open>try\<close>.\<close>

definition start_index :: "config \<Rightarrow> state_file \<Rightarrow> exn + int" where
  "start_index cfg f =
     (case map_of (load_state cfg f) ''next_index'' of
        None \<Rightarrow> Inr 0
      | Some v \<Rightarrow> py_int cfg v)"

text \<open>\<open>save_state\<close> ignores a failing write.\<close>

definition save_state :: "int \<Rightarrow> run \<Rightarrow> run" where
  "save_state next_index st =
     (if writable st
      then st\<lparr>state_file := Content (JDict [(''next_index'', JInt next_index)])\<rparr>
      else st)"

section \<open>Catalogue client\<close>

text \<open>
  The remote service is a parameter of the run. A request is answered with status
  401 (which is fatal), fails with an exception (transport failure, an error status
  on a read, a body that is not JSON), or succeeds. The answer may depend on the
  line being processed. \<open>library\<close> is the answer to the listing of the collection.
\<close>

datatype lookup_response = LookupUnauthorized | LookupFailed | LookupResults "movie list"

datatype add_response = AddUnauthorized | AddFailed | AddStatus nat

record env =
  library :: lookup_response
  lookup :: "int \<Rightarrow> string \<Rightarrow> lookup_response"
  add_movie :: "int \<Rightarrow> movie \<Rightarrow> add_response"

text \<open>The identifiers of the library entries whose \<open>tmdbId\<close> is present and not 0.\<close>

definition get_existing_tmdb_ids :: "movie list \<Rightarrow> int set" where
  "get_existing_tmdb_ids movies =
     set (List.map_filter
            (\<lambda>m. case tmdbId m of None \<Rightarrow> None | Some i \<Rightarrow> if i = 0 then None else Some i)
            movies)"

section \<open>Import driver\<close>

text \<open>
  How a piece of the loop body ends: it falls through to the next statement, it
  calls \<open>fatal\<close> (\<open>sys.exit\<close>, which \<open>except Exception\<close> does not catch), or it
  raises an exception.
\<close>

datatype flow = Next | SysExit | Exc exn

text \<open>\<open>if not prompt_continue(...): fatal("User aborted.")\<close>\<close>

definition after_issue :: "config \<Rightarrow> run \<Rightarrow> flow \<times> run" where
  "after_issue cfg st =
     (case prompt_continue cfg st of
        (Raised e, st1) \<Rightarrow> (Exc e, st1)
      | (Ret False, st1) \<Rightarrow> (SysExit, log_event FATAL st1)
      | (Ret True, st1) \<Rightarrow> (Next, st1))"

text \<open>The add request and what follows its answer.\<close>

definition do_add :: "env \<Rightarrow> config \<Rightarrow> int \<Rightarrow> movie \<Rightarrow> int \<Rightarrow> run \<Rightarrow> flow \<times> run" where
  "do_add env cfg idx selected tmdb st =
     (let st1 = st\<lparr>posted := posted st @ [selected]\<rparr> in
      case add_movie env idx selected of
        AddUnauthorized \<Rightarrow> (SysExit, log_event FATAL st1)
      | AddFailed \<Rightarrow> (Exc RequestException, st1)
      | AddStatus code \<Rightarrow>
          if code = 200 \<or> code = 201
          then (Next, log_event (ADD (idx + 1) tmdb)
                  (st1\<lparr>would_add := would_add st1 + 1, added := added st1 + 1,
                       existing_tmdb := insert tmdb (existing_tmdb st1)\<rparr>))
          else after_issue cfg (log_event (ERR_HTTP (idx + 1) code)
                  (st1\<lparr>errors := errors st1 + 1\<rparr>)))"

text \<open>
  The loop body from the resolved candidate on. \<open>not tmdb\<close> holds for an absent
  identifier and for 0. The pause after each line (\<open>time.sleep\<close>) is not modelled.
\<close>

definition handle_selected ::
  "env \<Rightarrow> config \<Rightarrow> int \<Rightarrow> string \<Rightarrow> movie \<Rightarrow> run \<Rightarrow> flow \<times> run" where
  "handle_selected env cfg idx term selected st =
     (let missing = after_issue cfg
            (log_event (ERR_NO_ID (idx + 1) term) (st\<lparr>errors := errors st + 1\<rparr>))
      in case tmdbId selected of
        None \<Rightarrow> missing
      | Some tmdb \<Rightarrow>
          if tmdb = 0 then missing
          else if tmdb \<in> existing_tmdb st
          then (Next, log_event (DUP (idx + 1) tmdb) (st\<lparr>duplicates := duplicates st + 1\<rparr>))
          else if DRY_RUN cfg
          then (Next, log_event (DRY (idx + 1) tmdb)
                  (st\<lparr>would_add := would_add st + 1,
                      dryrun_hits := dryrun_hits st @ [selected\<lparr>payload := []\<rparr>],
                      existing_tmdb := insert tmdb (existing_tmdb st)\<rparr>))
          else if CONFIRM_EACH_ADD_DEFAULT cfg
          then (case prompt_confirm_add cfg st of
                  (Raised e, st1) \<Rightarrow> (Exc e, st1)
                | (Ret False, st1) \<Rightarrow>
                    (Next, log_event (USER_SKIP (idx + 1) tmdb) (st1\<lparr>skipped := skipped st1 + 1\<rparr>))
                | (Ret True, st1) \<Rightarrow> do_add env cfg idx selected tmdb st1)
          else do_add env cfg idx selected tmdb st)"

text \<open>The body of the \<open>try\<close> statement.\<close>

definition try_block ::
  "env \<Rightarrow> config \<Rightarrow> int \<Rightarrow> string \<Rightarrow> int option \<Rightarrow> run \<Rightarrow> flow \<times> run" where
  "try_block env cfg idx term desired_year st =
     (case lookup env idx term of
        LookupUnauthorized \<Rightarrow> (SysExit, log_event FATAL st)
      | LookupFailed \<Rightarrow> (Exc RequestException, st)
      | LookupResults results \<Rightarrow>
          if results = []
          then after_issue cfg (log_event (MISS (idx + 1) term) (st\<lparr>misses := misses st + 1\<rparr>))
          else (case choose_from_results cfg term results desired_year st of
                  (Raised e, st1) \<Rightarrow> (Exc e, st1)
                | (Ret ABORT, st1) \<Rightarrow> (SysExit, log_event FATAL st1)
                | (Ret NoSelection, st1) \<Rightarrow>
                    after_issue cfg (log_event (SKIP (idx + 1) term)
                      (st1\<lparr>skipped := skipped st1 + 1\<rparr>))
                | (Ret (Selected selected), st1) \<Rightarrow>
                    handle_selected env cfg idx term selected st1))"

text \<open>
  How an iteration ends: with the next iteration, with \<open>break\<close>, with the exit of
  the process, or with an exception that nothing catches. For the loop as a whole
  \<open>Continue\<close> means that the range is exhausted.
\<close>

datatype control = Continue | Break | Exit | Uncaught exn

definition cap_reached :: "config \<Rightarrow> run \<Rightarrow> bool" where
  "cap_reached cfg st =
     (\<not> DRY_RUN cfg \<and> (case MAX_ADD cfg of None \<Rightarrow> False | Some n \<Rightarrow> added st \<ge> n))"

definition loop_body :: "env \<Rightarrow> config \<Rightarrow> int \<Rightarrow> string \<Rightarrow> run \<Rightarrow> control \<times> run" where
  "loop_body env cfg idx term st =
     (let st1 = save_state (idx + 1) st;
          st2 = st1\<lparr>processed := processed st1 + 1\<rparr>;
          desired_year = snd (parse_title_year term)
      in if cap_reached cfg st2 then (Break, log_event STOP st2)
         else case try_block env cfg idx term desired_year st2 of
           (Next, st3) \<Rightarrow> (Continue, st3)
         | (SysExit, st3) \<Rightarrow> (Exit, st3)
         | (Exc e, st3) \<Rightarrow>
             (case after_issue cfg (log_event (FAIL (idx + 1) e) (st3\<lparr>errors := errors st3 + 1\<rparr>)) of
                (Next, st4) \<Rightarrow> (Continue, st4)
              | (SysExit, st4) \<Rightarrow> (Exit, st4)
              | (Exc e', st4) \<Rightarrow> (Uncaught e', st4)))"

text \<open>\<open>movies[idx]\<close>: a negative index counts from the end, out of range raises.\<close>

definition py_index :: "string list \<Rightarrow> int \<Rightarrow> exn + string" where
  "py_index movies idx =
     (if 0 \<le> idx \<and> idx < int (length movies) then Inr (movies ! nat idx)
      else if idx < 0 \<and> - int (length movies) \<le> idx
        then Inr (movies ! nat (int (length movies) + idx))
      else Inl IndexError)"

function main_loop ::
  "env \<Rightarrow> config \<Rightarrow> string list \<Rightarrow> int \<Rightarrow> run \<Rightarrow> control \<times> run" where
  "main_loop env cfg movies idx st =
     (if idx < int (length movies)
      then (case py_index movies idx of
              Inl e \<Rightarrow> (Uncaught e, st)
            | Inr term \<Rightarrow>
                (case loop_body env cfg idx term st of
                   (Continue, st1) \<Rightarrow> main_loop env cfg movies (idx + 1) st1
                 | (Break, st1) \<Rightarrow> (Break, st1)
                 | (Exit, st1) \<Rightarrow> (Exit, st1)
                 | (Uncaught e, st1) \<Rightarrow> (Uncaught e, st1)))
      else (Continue, st))"
  by pat_completeness auto
termination
  by (relation "measure (\<lambda>(env, cfg, movies, idx, st). nat (int (length movies) - idx))") auto

declare main_loop.simps [simp del]

text \<open>Reading the input file: blank lines and comment lines are dropped.\<close>

definition read_input :: "string list \<Rightarrow> string list" where
  "read_input file_lines =
     map strip (filter (\<lambda>l. strip l \<noteq> [] \<and> hd (strip l) \<noteq> CHR ''#'') file_lines)"

definition reset_tracking :: "run \<Rightarrow> run" where
  "reset_tracking st =
     st\<lparr>dryrun_hits := [], processed := 0, would_add := 0, duplicates := 0,
        misses := 0, errors := 0, skipped := 0, added := 0\<rparr>"

text \<open>
  \<open>main\<close> from the reading of the input file on: reset of the counters, resume,
  seeding of the duplicate index, the loop, and the final \<open>save_state\<close> that the
  program reaches when the loop is exhausted and when it is left by \<open>break\<close>.
\<close>

definition main_import :: "env \<Rightarrow> config \<Rightarrow> string list \<Rightarrow> run \<Rightarrow> control \<times> run" where
  "main_import env cfg file_lines st0 =
     (let movies = read_input file_lines; st = reset_tracking st0 in
      case start_index cfg (state_file st) of
        Inl e \<Rightarrow> (Uncaught e, st)
      | Inr start \<Rightarrow>
          (case library env of
             LookupUnauthorized \<Rightarrow> (Exit, log_event FATAL st)
           | LookupFailed \<Rightarrow> (Exit, log_event FATAL st)
           | LookupResults lib \<Rightarrow>
               (case main_loop env cfg movies start
                       (st\<lparr>existing_tmdb := get_existing_tmdb_ids lib\<rparr>) of
                  (Continue, st1) \<Rightarrow> (Continue, save_state (int (length movies)) st1)
                | (Break, st1) \<Rightarrow> (Break, save_state (int (length movies)) st1)
                | (Exit, st1) \<Rightarrow> (Exit, st1)
                | (Uncaught e, st1) \<Rightarrow> (Uncaught e, st1))))"

section \<open>Reading the log\<close>

text \<open>
  The line number of an event that records the outcome of a line (miss, skip,
  missing identifier, duplicate, simulated add, operator skip, add, rejected add,
  failure), and the identifier that an add or a simulated add puts into the
  duplicate index.
\<close>

fun line_of :: "event \<Rightarrow> int option" where
  "line_of (MISS n t) = Some n"
| "line_of (SKIP n t) = Some n"
| "line_of (ERR_NO_ID n t) = Some n"
| "line_of (DUP n x) = Some n"
| "line_of (DRY n x) = Some n"
| "line_of (USER_SKIP n x) = Some n"
| "line_of (ADD n x) = Some n"
| "line_of (ERR_HTTP n c) = Some n"
| "line_of (FAIL n e) = Some n"
| "line_of _ = None"

definition handled_lines :: "event list \<Rightarrow> int set" where
  "handled_lines evs = set (List.map_filter line_of evs)"

fun added_id :: "event \<Rightarrow> int option" where
  "added_id (ADD n x) = Some x"
| "added_id (DRY n x) = Some x"
| "added_id _ = None"

text \<open>
  Two relations between the state before and after a piece of the run.
  \<open>only_io\<close>: nothing changed but the answers consumed and the sticky flags, and
  the flag of the issue policy was not reset. \<open>frame N\<close>: the duplicate index, the
  log and the add requests only grew, the new outcome events are of lines in \<open>N\<close>,
  and every new add, simulated add and add request is for an identifier that was
  not in the index before.
\<close>

definition only_io :: "run \<Rightarrow> run \<Rightarrow> bool" where
  "only_io st st' =
     (st' = st\<lparr>stdin := stdin st', always_continue := always_continue st',
               always_yes_add := always_yes_add st'\<rparr>
      \<and> (always_continue st \<longrightarrow> always_continue st'))"

definition frame :: "int set \<Rightarrow> run \<Rightarrow> run \<Rightarrow> bool" where
  "frame N st st' =
     (writable st' = writable st
      \<and> existing_tmdb st \<subseteq> existing_tmdb st'
      \<and> (always_continue st \<longrightarrow> always_continue st')
      \<and> set (log st) \<subseteq> set (log st')
      \<and> (\<forall>e \<in> set (log st') - set (log st).
            (\<forall>n. line_of e = Some n \<longrightarrow> n \<in> N)
            \<and> (\<forall>x. added_id e = Some x \<longrightarrow> x \<notin> existing_tmdb st \<and> x \<in> existing_tmdb st'))
      \<and> set (posted st) \<subseteq> set (posted st')
      \<and> (\<forall>m \<in> set (posted st') - set (posted st).
            \<forall>x. tmdbId m = Some x \<longrightarrow> x \<notin> existing_tmdb st))"

text \<open>
  \<open>step_ok N n st r\<close>: a piece of the loop body for line number \<open>n\<close>, started in
  \<open>st\<close> and ended with \<open>r\<close>, respects \<open>frame N\<close>, leaves the state file alone,
  and has logged an outcome for the line if it falls through to the next line.
\<close>

definition step_ok :: "int set \<Rightarrow> int \<Rightarrow> run \<Rightarrow> flow \<times> run \<Rightarrow> bool" where
  "step_ok N n st r =
     (frame N st (snd r) \<and> state_file (snd r) = state_file st
      \<and> (fst r = Next \<longrightarrow> n \<in> handled_lines (log (snd r))))"

text \<open>
  The specification's reading of two titles being equal case-insensitively: they
  have the same length, and at each position stand the same character or a capital
  letter and its small letter.
\<close>

definition case_variant :: "char \<Rightarrow> char \<Rightarrow> bool" where
  "case_variant c d =
     (c = d \<or> (isupper c \<and> (of_char d :: nat) = of_char c + 32)
            \<or> (isupper d \<and> (of_char c :: nat) = of_char d + 32))"

definition equal_ignoring_case :: "string \<Rightarrow> string \<Rightarrow> bool" where
  "equal_ignoring_case s t = list_all2 case_variant s t"

section \<open>Scenarios\<close>

text \<open>Concrete candidates, settings, services and states used to run the model.\<close>

definition alien_2001 :: movie where
  "alien_2001 = \<lparr>tmdbId = Some 10, title = Some ''Alien'', year = Some 2001, payload = []\<rparr>"

definition alien_1999 :: movie where
  "alien_1999 = \<lparr>tmdbId = Some 11, title = Some ''Alien'', year = Some 1999, payload = []\<rparr>"

definition aliens_1999 :: movie where
  "aliens_1999 = \<lparr>tmdbId = Some 12, title = Some ''Aliens'', year = Some 1999, payload = []\<rparr>"

definition no_id_movie :: movie where
  "no_id_movie = \<lparr>tmdbId = Some 0, title = Some ''Alien'', year = Some 1979, payload = []\<rparr>"

definition numbered :: "int \<Rightarrow> movie" where
  "numbered i = \<lparr>tmdbId = Some i, title = Some ''T'', year = None, payload = []\<rparr>"

text \<open>The settings of the source file, in live mode, with no cap.\<close>

definition live_cfg :: config where
  "live_cfg = \<lparr>STRICT_YEAR_MATCH = True, INTERACTIVE_ON_ISSUES = True,
     CONFIRM_EACH_ADD_DEFAULT = True, DRY_RUN = False, AUTO_ADD = False, YES_ALL = False,
     MAX_ADD = None, INT_MAX_STR_DIGITS = Some 4300\<rparr>"

text \<open>Live mode started with \<open>--auto-add --max-add 2\<close>.\<close>

definition cap_cfg :: config where
  "cap_cfg = live_cfg\<lparr>AUTO_ADD := True, MAX_ADD := Some 2\<rparr>"

definition dry_cfg :: config where
  "dry_cfg = live_cfg\<lparr>DRY_RUN := True\<rparr>"

text \<open>
  A service with an empty library where the lookup of line \<open>idx\<close> returns one
  candidate with identifier \<open>100 + idx\<close> and every add is answered with 201.
\<close>

definition fresh_env :: env where
  "fresh_env = \<lparr>library = LookupResults [],
     lookup = (\<lambda>idx term. LookupResults [numbered (100 + idx)]),
     add_movie = (\<lambda>idx m. AddStatus 201)\<rparr>"

text \<open>A service that rejects the key at the first lookup.\<close>

definition rejecting_env :: env where
  "rejecting_env = fresh_env\<lparr>lookup := (\<lambda>idx term. LookupUnauthorized)\<rparr>"

text \<open>A service whose every lookup returns the same candidate, with identifier 348.\<close>

definition same_env :: env where
  "same_env = fresh_env\<lparr>lookup := (\<lambda>idx term. LookupResults [numbered 348])\<rparr>"

definition init_run :: run where
  "init_run = \<lparr>stdin = [], always_continue = False, always_yes_add = False,
     processed = 0, would_add = 0, duplicates = 0, misses = 0, errors = 0, skipped = 0,
     added = 0, existing_tmdb = {}, dryrun_hits = [], state_file = Missing,
     writable = True, posted = [], log = []\<rparr>"

text \<open>The operator presses Enter once: one empty answer on standard input.\<close>

definition enter_run :: run where
  "enter_run = init_run\<lparr>stdin := ['''']\<rparr>"

definition four_lines :: "string list" where
  "four_lines = [''A'', ''B'', ''C'', ''D'']"

text \<open>Live mode started with \<open>--auto-add\<close> and no cap.\<close>

definition auto_cfg :: config where
  "auto_cfg = live_cfg\<lparr>AUTO_ADD := True\<rparr>"

text \<open>The state left by a run that the service stops at the first lookup.\<close>

definition aborted_run :: run where
  "aborted_run = snd (main_import rejecting_env auto_cfg four_lines init_run)"

text \<open>A run whose duplicate index already holds the identifier 348.\<close>

definition seeded_run :: run where
  "seeded_run = init_run\<lparr>existing_tmdb := {348}\<rparr>"

text \<open>The operator types one answer.\<close>

definition answer_run :: "string \<Rightarrow> run" where
  "answer_run a = init_run\<lparr>stdin := [a]\<rparr>"

text \<open>A service that works for two lines and rejects the key at the third lookup.\<close>

definition late_reject_env :: env where
  "late_reject_env = fresh_env\<lparr>lookup :=
     (\<lambda>idx term. if idx = 2 then LookupUnauthorized else LookupResults [numbered (100 + idx)])\<rparr>"


definition bad_state :: state_file where
  "bad_state = Content (JDict [(''next_index'', JStr ''abc'')])"


section \<open>Properties of the line parser\<close>














section \<open>Resolution: year filter and exact-title shortcut\<close>

text \<open>
  Against the statement of C3 that the shortcut is applied to the filtered singleton:
  for the candidates of 2001 and 1999 and the line \<open>Alien (1999)\<close>, the year filter
  leaves the 1999 candidate alone and its title is the one exact match, yet the
  shortcut returns nothing, because a year was given.
\<close>

theorem year_strict_shortcut_counterexample:
  "year_matches [alien_2001, alien_1999] 1999 = [alien_1999]
   \<and> exact_title ''Alien (1999)'' (year_matches [alien_2001, alien_1999] 1999) = [alien_1999]
   \<and> shortcut ''Alien (1999)'' (year_matches [alien_2001, alien_1999] 1999) (Some 1999) = None"
  by code_simp

lemma shortcut_year: "shortcut term filtered (Some y) = None"
  by (simp add: shortcut_def)

text \<open>
  C3, amended. With the strict-year policy, candidates of the years 2001 and 1999
  and the desired year 1999: the year filter leaves the 1999 candidate alone, titles
  are compared within that singleton only, the shortcut does not fire, and the
  candidate is returned as the first of the filtered set, with no prompt and the
  state unchanged.
\<close>

theorem year_strict_singleton:
  assumes "STRICT_YEAR_MATCH cfg" and "year a = Some 2001" and "year b = Some 1999"
  shows "year_matches [a, b] 1999 = [b]
    \<and> set (exact_title term (year_matches [a, b] 1999)) \<subseteq> {b}
    \<and> shortcut term (year_matches [a, b] 1999) (Some 1999) = None
    \<and> choose_from_results cfg term [a, b] (Some 1999) st = (Ret (Selected b), st)"
proof -
  have ym: "year_matches [a, b] 1999 = [b]"
    using assms by (simp add: year_matches_def)
  have "set (exact_title term [b]) \<subseteq> {b}"
    by (auto simp: exact_title_def Let_def)
  moreover have "resolve_filtered cfg term [b] (Some 1999) st = (Ret (Selected b), st)"
    by (simp add: resolve_filtered_def shortcut_year)
  ultimately show ?thesis
    using assms(1) ym by (simp add: choose_from_results_def shortcut_year)
qed

theorem year_strict_singleton_witness:
  "STRICT_YEAR_MATCH live_cfg \<and> year alien_2001 = Some 2001 \<and> year alien_1999 = Some 1999
   \<and> choose_from_results live_cfg ''Alien (1999)'' [alien_2001, alien_1999] (Some 1999) init_run
       = (Ret (Selected alien_1999), init_run)"
proof -
  have h: "STRICT_YEAR_MATCH live_cfg" "year alien_2001 = Some 2001" "year alien_1999 = Some 1999"
    by (simp_all add: live_cfg_def alien_2001_def alien_1999_def)
  from year_strict_singleton [OF h, of "''Alien (1999)''" init_run] h show ?thesis by simp
qed


lemma singleton_length_one: "length xs = 1 \<Longrightarrow> xs = [xs ! 0]"
  by (cases xs) auto

lemma lower_char_code:
  "(of_char (lower_char c) :: nat) = (if isupper c then of_char c + 32 else of_char c)"
  by (auto simp: lower_char_def isupper_def Let_def)

lemma lower_char_eq_iff: "lower_char c = lower_char d \<longleftrightarrow> case_variant c d"
proof -
  have "lower_char c = lower_char d
      \<longleftrightarrow> (of_char (lower_char c) :: nat) = of_char (lower_char d)" by simp
  also have "\<dots> \<longleftrightarrow> case_variant c d"
    unfolding lower_char_code case_variant_def
    using of_char_eq_iff [of c d, where ?'a = nat]
    by (auto simp: isupper_def Let_def)
  finally show ?thesis .
qed

lemma lower_eq_iff: "lower s = lower t \<longleftrightarrow> equal_ignoring_case s t"
proof -
  have "lower s = lower t \<longleftrightarrow> list_all2 (=) (map lower_char s) (map lower_char t)"
    by (simp add: lower_def list.rel_eq)
  also have "\<dots> \<longleftrightarrow> list_all2 (\<lambda>c d. lower_char c = lower_char d) s t"
    by (simp add: list_all2_map1 list_all2_map2)
  also have "\<dots> \<longleftrightarrow> list_all2 case_variant s t"
    by (simp add: lower_char_eq_iff)
  finally show ?thesis by (simp add: equal_ignoring_case_def)
qed

lemma exact_title_spec:
  "exact_title term filtered
     = filter (\<lambda>c. equal_ignoring_case (strip (title_text c)) (fst (parse_title_year term)))
         filtered"
  by (simp add: exact_title_def Let_def lower_eq_iff)

lemma exact_title_nonempty: "exact_title term filtered = [m] \<Longrightarrow> filtered \<noteq> []"
  by (auto simp: exact_title_def Let_def)

text \<open>
  C4. The shortcut returns a candidate exactly when no year was asked for and the
  candidates whose title, with surrounding whitespace removed, equals the parsed
  title case-insensitively are that one candidate; resolution then returns it at
  once, with no prompt and the state unchanged. With a year the shortcut returns
  nothing, even when exactly one title matches, and resolution goes on to the
  disambiguation prompt or to the first candidate.
\<close>

theorem exact_shortcut_iff:
  "(shortcut term filtered desired_year = Some m
      \<longleftrightarrow> desired_year = None
        \<and> filter (\<lambda>c. equal_ignoring_case (strip (title_text c)) (fst (parse_title_year term)))
            filtered = [m])
   \<and> (filter (\<lambda>c. equal_ignoring_case (strip (title_text c)) (fst (parse_title_year term)))
         results = [m]
      \<longrightarrow> choose_from_results cfg term results None st = (Ret (Selected m), st))
   \<and> (desired_year \<noteq> None \<longrightarrow> shortcut term filtered desired_year = None)
   \<and> (desired_year \<noteq> None \<and> filtered \<noteq> [] \<longrightarrow>
        resolve_filtered cfg term filtered desired_year st =
          (if INTERACTIVE_ON_ISSUES cfg \<and> \<not> always_continue st \<and> length filtered > 1
           then choose_loop cfg (take MAX_CHOICES_TO_SHOW filtered) (stdin st)
                  (log_event (AMBIG term (take MAX_CHOICES_TO_SHOW filtered)) st)
           else (Ret (Selected (filtered ! 0)), st)))"
proof (intro conjI impI)
  show "shortcut term filtered desired_year = Some m
      \<longleftrightarrow> desired_year = None
        \<and> filter (\<lambda>c. equal_ignoring_case (strip (title_text c)) (fst (parse_title_year term)))
            filtered = [m]"
    unfolding exact_title_spec [symmetric]
  proof
    assume "shortcut term filtered desired_year = Some m"
    then have l: "length (exact_title term filtered) = 1" and d: "desired_year = None"
      and m: "exact_title term filtered ! 0 = m"
      by (auto simp: shortcut_def split: if_splits)
    from singleton_length_one [OF l] m d
    show "desired_year = None \<and> exact_title term filtered = [m]" by simp
  next
    assume "desired_year = None \<and> exact_title term filtered = [m]"
    then show "shortcut term filtered desired_year = Some m" by (simp add: shortcut_def)
  qed
next
  assume "filter (\<lambda>c. equal_ignoring_case (strip (title_text c)) (fst (parse_title_year term)))
         results = [m]"
  then have e: "exact_title term results = [m]" by (simp add: exact_title_spec)
  then have "shortcut term results None = Some m" by (simp add: shortcut_def)
  with exact_title_nonempty [OF e]
  show "choose_from_results cfg term results None st = (Ret (Selected m), st)"
    by (simp add: choose_from_results_def resolve_filtered_def)
next
  assume "desired_year \<noteq> None"
  then show "shortcut term filtered desired_year = None" by (simp add: shortcut_def)
next
  assume "desired_year \<noteq> None \<and> filtered \<noteq> []"
  then obtain y where "desired_year = Some y" and "filtered \<noteq> []" by auto
  then show "resolve_filtered cfg term filtered desired_year st =
          (if INTERACTIVE_ON_ISSUES cfg \<and> \<not> always_continue st \<and> length filtered > 1
           then choose_loop cfg (take MAX_CHOICES_TO_SHOW filtered) (stdin st)
                  (log_event (AMBIG term (take MAX_CHOICES_TO_SHOW filtered)) st)
           else (Ret (Selected (filtered ! 0)), st))"
    by (simp add: resolve_filtered_def shortcut_year Let_def log_event_def)
qed

theorem exact_shortcut_iff_witness:
  "filter (\<lambda>c. equal_ignoring_case (strip (title_text c)) (fst (parse_title_year ''alien'')))
      [aliens_1999, alien_1999] = [alien_1999]
   \<and> shortcut ''alien'' [aliens_1999, alien_1999] None = Some alien_1999
   \<and> choose_from_results live_cfg ''alien'' [aliens_1999, alien_1999] None init_run
       = (Ret (Selected alien_1999), init_run)
   \<and> Some (1999::int) \<noteq> None \<and> [aliens_1999, alien_1999] \<noteq> []
   \<and> shortcut ''alien (1999)'' [aliens_1999, alien_1999] (Some 1999) = None
   \<and> resolve_filtered (live_cfg\<lparr>INTERACTIVE_ON_ISSUES := False\<rparr>) ''alien (1999)''
        [aliens_1999, alien_1999] (Some 1999) init_run = (Ret (Selected aliens_1999), init_run)"
proof -
  have "exact_title ''alien'' [aliens_1999, alien_1999] = [alien_1999]" by code_simp
  then have e: "filter (\<lambda>c. equal_ignoring_case (strip (title_text c))
      (fst (parse_title_year ''alien''))) [aliens_1999, alien_1999] = [alien_1999]"
    by (simp only: exact_title_spec)
  have n: "Some (1999::int) \<noteq> None \<and> [aliens_1999, alien_1999] \<noteq> []" by simp
  note t = exact_shortcut_iff [of "''alien''" "[aliens_1999, alien_1999]" None alien_1999
      "[aliens_1999, alien_1999]" live_cfg init_run]
  note u = exact_shortcut_iff [of "''alien (1999)''" "[aliens_1999, alien_1999]" "Some 1999" alien_1999
      "[aliens_1999, alien_1999]" "live_cfg\<lparr>INTERACTIVE_ON_ISSUES := False\<rparr>" init_run]
  from t e have a: "shortcut ''alien'' [aliens_1999, alien_1999] None = Some alien_1999"
    and b: "choose_from_results live_cfg ''alien'' [aliens_1999, alien_1999] None init_run
       = (Ret (Selected alien_1999), init_run)" by blast+
  from u n have c: "shortcut ''alien (1999)'' [aliens_1999, alien_1999] (Some 1999) = None"
    by blast
  from u n have d: "resolve_filtered (live_cfg\<lparr>INTERACTIVE_ON_ISSUES := False\<rparr>) ''alien (1999)''
        [aliens_1999, alien_1999] (Some 1999) init_run = (Ret (Selected aliens_1999), init_run)"
    by simp
  from e a b c d n show ?thesis by blast
qed

text \<open>
  The title comparison at work on capitals outside ASCII: a catalogue title that
  starts with code point 201 (capital E with acute accent) is matched by a line
  that starts with code point 233 (the small letter).
\<close>

lemma exact_title_accent:
  "exact_title (char_of (233::nat) # ''cole'')
     [\<lparr>tmdbId = Some 1, title = Some (char_of (201::nat) # ''COLE''), year = None, payload = []\<rparr>]
   = [\<lparr>tmdbId = Some 1, title = Some (char_of (201::nat) # ''COLE''), year = None, payload = []\<rparr>]"
  by code_simp


text \<open>
  C8. With a desired year, the strict-year policy and no candidate of that year,
  resolution logs the year miss and asks the issue policy. When the policy answers
  abort, resolution returns \<open>ABORT\<close>; when it answers continue, resolution goes on
  with the whole, unfiltered candidate list.
\<close>

theorem year_miss_policy:
  assumes "STRICT_YEAR_MATCH cfg" and "year_matches results y = []"
  shows "(prompt_continue cfg (log_event (YEAR_MISS term y) st) = (Ret False, st2)
            \<longrightarrow> choose_from_results cfg term results (Some y) st = (Ret ABORT, st2))
       \<and> (prompt_continue cfg (log_event (YEAR_MISS term y) st) = (Ret True, st2)
            \<longrightarrow> choose_from_results cfg term results (Some y) st
                  = resolve_filtered cfg term results (Some y) st2)"
  using assms by (simp add: choose_from_results_def)

theorem year_miss_policy_witness:
  "STRICT_YEAR_MATCH live_cfg \<and> year_matches [alien_2001] 1999 = []
   \<and> choose_from_results live_cfg ''Alien (1999)'' [alien_2001] (Some 1999)
        (init_run\<lparr>stdin := [''n'']\<rparr>)
       = (Ret ABORT, log_event (YEAR_MISS ''Alien (1999)'' 1999) init_run)
   \<and> choose_from_results live_cfg ''Alien (1999)'' [alien_2001] (Some 1999)
        (init_run\<lparr>stdin := [''y'']\<rparr>)
       = (Ret (Selected alien_2001), log_event (YEAR_MISS ''Alien (1999)'' 1999) init_run)"
proof -
  have h: "STRICT_YEAR_MATCH live_cfg" "year_matches [alien_2001] 1999 = []"
    by (simp_all add: live_cfg_def year_matches_def alien_2001_def)
  have n: "prompt_continue live_cfg
             (log_event (YEAR_MISS ''Alien (1999)'' 1999) (init_run\<lparr>stdin := [''n'']\<rparr>))
           = (Ret False, log_event (YEAR_MISS ''Alien (1999)'' 1999) init_run)"
    by code_simp
  have y: "prompt_continue live_cfg
             (log_event (YEAR_MISS ''Alien (1999)'' 1999) (init_run\<lparr>stdin := [''y'']\<rparr>))
           = (Ret True, log_event (YEAR_MISS ''Alien (1999)'' 1999) init_run)"
    by code_simp
  have r: "resolve_filtered live_cfg ''Alien (1999)'' [alien_2001] (Some 1999)
             (log_event (YEAR_MISS ''Alien (1999)'' 1999) init_run)
           = (Ret (Selected alien_2001), log_event (YEAR_MISS ''Alien (1999)'' 1999) init_run)"
    by (simp add: resolve_filtered_def shortcut_year)
  from year_miss_policy [OF h, of "''Alien (1999)''" "init_run\<lparr>stdin := [''n'']\<rparr>"
      "log_event (YEAR_MISS ''Alien (1999)'' 1999) init_run"] n
  have a: "choose_from_results live_cfg ''Alien (1999)'' [alien_2001] (Some 1999)
        (init_run\<lparr>stdin := [''n'']\<rparr>)
       = (Ret ABORT, log_event (YEAR_MISS ''Alien (1999)'' 1999) init_run)" by simp
  from year_miss_policy [OF h, of "''Alien (1999)''" "init_run\<lparr>stdin := [''y'']\<rparr>"
      "log_event (YEAR_MISS ''Alien (1999)'' 1999) init_run"] y r
  have b: "choose_from_results live_cfg ''Alien (1999)'' [alien_2001] (Some 1999)
        (init_run\<lparr>stdin := [''y'']\<rparr>)
       = (Ret (Selected alien_2001), log_event (YEAR_MISS ''Alien (1999)'' 1999) init_run)" by simp
  from h a b show ?thesis by simp
qed


section \<open>Progress tracker: malformed state, and the cap\<close>

text \<open>
  C5, on the code. A missing file, an unreadable file, a JSON value that is not an
  object and a \<open>last_index\<close> that is not a number all give the start index 0. An
  object whose \<open>next_index\<close> is the string \<open>abc\<close> is returned by \<open>load_state\<close> as
  it is, the conversion in \<open>main\<close> raises \<open>ValueError\<close>, and the run ends with
  that exception, whatever the service, the settings and the input file are.
\<close>

theorem load_state_bad_next_index:
  "start_index cfg Missing = Inr 0
   \<and> start_index cfg Unreadable = Inr 0
   \<and> start_index cfg (Content (JList [])) = Inr 0
   \<and> start_index cfg (Content (JDict [(''last_index'', JStr ''abc'')])) = Inr 0
   \<and> load_state cfg bad_state = [(''next_index'', JStr ''abc'')]
   \<and> start_index cfg bad_state = Inl ValueError
   \<and> main_import env cfg file_lines (st\<lparr>state_file := bad_state\<rparr>)
       = (Uncaught ValueError, reset_tracking (st\<lparr>state_file := bad_state\<rparr>))"
proof -
  have a: "start_index cfg Missing = Inr 0" "start_index cfg Unreadable = Inr 0"
    "start_index cfg (Content (JList [])) = Inr 0"
    by (simp_all add: start_index_def load_state_def no_progress_def)
  have b: "start_index cfg (Content (JDict [(''last_index'', JStr ''abc'')])) = Inr 0"
    by code_simp
  have c: "load_state cfg bad_state = [(''next_index'', JStr ''abc'')]"
    by (simp add: load_state_def bad_state_def)
  have d: "start_index cfg bad_state = Inl ValueError" by code_simp
  have "state_file (reset_tracking (st\<lparr>state_file := bad_state\<rparr>)) = bad_state"
    by (simp add: reset_tracking_def)
  with d have "main_import env cfg file_lines (st\<lparr>state_file := bad_state\<rparr>)
       = (Uncaught ValueError, reset_tracking (st\<lparr>state_file := bad_state\<rparr>))"
    by (simp add: main_import_def Let_def)
  with a b c d show ?thesis by simp
qed

text \<open>
  C1, on the code. Live mode with a cap of 2 and four lines that resolve to four new
  candidates: the run stops at the third line after two adds, and the final
  \<open>save_state\<close> stores 4, the number of lines. The next run starts at 4, processes no
  line and sends no add: the third and fourth line are never processed.
\<close>

theorem cap_halt_marks_all_processed:
  "(case main_import fresh_env cap_cfg four_lines init_run of
      (c, st) \<Rightarrow>
        c = Break
        \<and> log st = [ADD 1 100, ADD 2 101, STOP]
        \<and> posted st = [numbered 100, numbered 101]
        \<and> state_file st = Content (JDict [(''next_index'', JInt 4)])
        \<and> start_index cap_cfg (state_file st) = Inr 4
        \<and> (case main_import fresh_env cap_cfg four_lines st of
              (c2, st2) \<Rightarrow> c2 = Continue \<and> posted st2 = posted st \<and> log st2 = log st))"
  by code_simp


section \<open>What the prompts and the driver change\<close>

lemma only_io_refl: "only_io st st"
  by (simp add: only_io_def)

lemma only_io_trans: "only_io a b \<Longrightarrow> only_io b c \<Longrightarrow> only_io a c"
  unfolding only_io_def
  by (metis (no_types, lifting) run.update_convs(1,2,3) run.surjective)

lemma prompt_continue_loop_io: "only_io st (snd (prompt_continue_loop xs st))"
  by (induction xs) (simp_all add: only_io_def Let_def)

lemma prompt_continue_io: "only_io st (snd (prompt_continue cfg st))"
  by (simp add: prompt_continue_def only_io_refl prompt_continue_loop_io)

lemma prompt_confirm_add_loop_io: "only_io st (snd (prompt_confirm_add_loop cfg xs st))"
  by (induction xs) (simp_all add: only_io_def Let_def)

lemma prompt_confirm_add_io: "only_io st (snd (prompt_confirm_add cfg st))"
  by (simp add: prompt_confirm_add_def only_io_refl prompt_confirm_add_loop_io)

lemma choose_loop_io: "only_io st (snd (choose_loop cfg shown xs st))"
proof (induction xs)
  case Nil
  show ?case by (simp add: only_io_def)
next
  case (Cons a xs)
  show ?case
  proof (cases shown)
    case Nil
    with Cons show ?thesis by (simp add: only_io_def Let_def split: option.splits)
  next
    case (Cons m ms)
    with Cons.IH show ?thesis by (simp add: only_io_def Let_def split: option.splits)
  qed
qed


lemma only_io_fields:
  assumes "only_io st st'"
  shows "log st' = log st" and "posted st' = posted st"
    and "existing_tmdb st' = existing_tmdb st" and "state_file st' = state_file st"
    and "writable st' = writable st" and "errors st' = errors st"
    and "added st' = added st" and "dryrun_hits st' = dryrun_hits st"
    and "duplicates st' = duplicates st" and "skipped st' = skipped st"
    and "always_continue st \<longrightarrow> always_continue st'"
proof -
  from assms have e: "st' = st\<lparr>stdin := stdin st', always_continue := always_continue st',
      always_yes_add := always_yes_add st'\<rparr>" and a: "always_continue st \<longrightarrow> always_continue st'"
    by (simp_all add: only_io_def)
  show "log st' = log st" by (subst e) simp
  show "posted st' = posted st" by (subst e) simp
  show "existing_tmdb st' = existing_tmdb st" by (subst e) simp
  show "state_file st' = state_file st" by (subst e) simp
  show "writable st' = writable st" by (subst e) simp
  show "errors st' = errors st" by (subst e) simp
  show "added st' = added st" by (subst e) simp
  show "dryrun_hits st' = dryrun_hits st" by (subst e) simp
  show "duplicates st' = duplicates st" by (subst e) simp
  show "skipped st' = skipped st" by (subst e) simp
  show "always_continue st \<longrightarrow> always_continue st'" by (rule a)
qed

lemma frame_refl: "frame N st st"
  by (simp add: frame_def)

lemma frame_trans:
  assumes "frame N a b" and "frame N b c"
  shows "frame N a c"
  using assms unfolding frame_def by blast

lemma frame_mono: "frame N st st' \<Longrightarrow> N \<subseteq> M \<Longrightarrow> frame M st st'"
  unfolding frame_def by blast

lemma only_io_frame: "only_io st st' \<Longrightarrow> frame N st st'"
  using only_io_fields [of st st'] by (simp add: frame_def)

lemma handled_lines_iff: "n \<in> handled_lines evs \<longleftrightarrow> (\<exists>e \<in> set evs. line_of e = Some n)"
  by (induction evs) (auto simp: handled_lines_def map_filter_simps split: option.splits)

lemma frame_handled:
  assumes "frame N st st'"
  shows "handled_lines (log st) \<subseteq> handled_lines (log st')"
    and "handled_lines (log st') \<subseteq> handled_lines (log st) \<union> N"
proof -
  from assms have s: "set (log st) \<subseteq> set (log st')"
    and n: "\<forall>e \<in> set (log st') - set (log st). \<forall>n. line_of e = Some n \<longrightarrow> n \<in> N"
    unfolding frame_def by blast+
  from s show "handled_lines (log st) \<subseteq> handled_lines (log st')"
    unfolding subset_iff handled_lines_iff by blast
  from n show "handled_lines (log st') \<subseteq> handled_lines (log st) \<union> N"
    unfolding subset_iff handled_lines_iff Un_iff by blast
qed


lemma after_issue_shape:
  "\<exists>s. only_io st s \<and> (snd (after_issue cfg st) = s \<or> snd (after_issue cfg st) = log_event FATAL s)"
proof -
  obtain r s where p: "prompt_continue cfg st = (r, s)" by (cases "prompt_continue cfg st")
  with prompt_continue_io [of st cfg] have "only_io st s" by simp
  moreover from p have "snd (after_issue cfg st) = s \<or> snd (after_issue cfg st) = log_event FATAL s"
    by (cases r) (auto simp: after_issue_def split: bool.splits)
  ultimately show ?thesis by blast
qed

lemma frame_fatal: "frame N s (log_event FATAL s)"
  by (auto simp: frame_def log_event_def)

lemma after_issue_frame: "frame N st (snd (after_issue cfg st))"
proof -
  obtain s where s: "only_io st s"
    and d: "snd (after_issue cfg st) = s \<or> snd (after_issue cfg st) = log_event FATAL s"
    using after_issue_shape [of st cfg] by blast
  from s have f: "frame N st s" by (rule only_io_frame)
  from d show ?thesis
  proof
    assume "snd (after_issue cfg st) = s"
    with f show ?thesis by simp
  next
    assume "snd (after_issue cfg st) = log_event FATAL s"
    with frame_trans [OF f frame_fatal] show ?thesis by simp
  qed
qed

lemma after_issue_fields:
  shows "posted (snd (after_issue cfg st)) = posted st"
    and "errors (snd (after_issue cfg st)) = errors st"
    and "existing_tmdb (snd (after_issue cfg st)) = existing_tmdb st"
    and "added (snd (after_issue cfg st)) = added st"
    and "dryrun_hits (snd (after_issue cfg st)) = dryrun_hits st"
    and "state_file (snd (after_issue cfg st)) = state_file st"
    and "writable (snd (after_issue cfg st)) = writable st"
proof -
  obtain s where s: "only_io st s"
    and d: "snd (after_issue cfg st) = s \<or> snd (after_issue cfg st) = log_event FATAL s"
    using after_issue_shape [of st cfg] by blast
  note f = only_io_fields [OF s]
  from d show "posted (snd (after_issue cfg st)) = posted st"
    by (rule disjE) (simp_all add: log_event_def f(2))
  from d show "errors (snd (after_issue cfg st)) = errors st"
    by (rule disjE) (simp_all add: log_event_def f(6))
  from d show "existing_tmdb (snd (after_issue cfg st)) = existing_tmdb st"
    by (rule disjE) (simp_all add: log_event_def f(3))
  from d show "added (snd (after_issue cfg st)) = added st"
    by (rule disjE) (simp_all add: log_event_def f(7))
  from d show "dryrun_hits (snd (after_issue cfg st)) = dryrun_hits st"
    by (rule disjE) (simp_all add: log_event_def f(8))
  from d show "state_file (snd (after_issue cfg st)) = state_file st"
    by (rule disjE) (simp_all add: log_event_def f(4))
  from d show "writable (snd (after_issue cfg st)) = writable st"
    by (rule disjE) (simp_all add: log_event_def f(5))
qed

lemma get_existing_tmdb_ids_iff:
  "i \<in> get_existing_tmdb_ids lib \<longleftrightarrow> (\<exists>m \<in> set lib. tmdbId m = Some i \<and> i \<noteq> 0)"
  by (induction lib)
     (auto simp: get_existing_tmdb_ids_def map_filter_simps split: option.splits if_splits)

section \<open>Candidates without an identifier\<close>

text \<open>
  C10. A resolved candidate whose identifier is absent or 0 takes the error branch:
  the error counter goes up by one, the event of a missing identifier is logged for
  the line, the issue policy is asked, and no add request is sent, nothing is added
  to the dry-run hits, to the duplicate index or to the count of adds. The seeding
  of the duplicate index keeps exactly the identifiers of the library entries that
  are present and not 0, so 0 is never in it.
\<close>

theorem falsy_id_is_error:
  assumes "tmdbId selected = None \<or> tmdbId selected = Some 0"
  shows "handle_selected env cfg idx term selected st
           = after_issue cfg (log_event (ERR_NO_ID (idx + 1) term) (st\<lparr>errors := errors st + 1\<rparr>))
    \<and> errors (snd (handle_selected env cfg idx term selected st)) = errors st + 1
    \<and> ERR_NO_ID (idx + 1) term \<in> set (log (snd (handle_selected env cfg idx term selected st)))
    \<and> posted (snd (handle_selected env cfg idx term selected st)) = posted st
    \<and> dryrun_hits (snd (handle_selected env cfg idx term selected st)) = dryrun_hits st
    \<and> existing_tmdb (snd (handle_selected env cfg idx term selected st)) = existing_tmdb st
    \<and> added (snd (handle_selected env cfg idx term selected st)) = added st
    \<and> 0 \<notin> get_existing_tmdb_ids lib
    \<and> (\<forall>i. i \<in> get_existing_tmdb_ids lib \<longleftrightarrow> (\<exists>m \<in> set lib. tmdbId m = Some i \<and> i \<noteq> 0))"
proof -
  let ?s = "log_event (ERR_NO_ID (idx + 1) term) (st\<lparr>errors := errors st + 1\<rparr>)"
  from assms have h: "handle_selected env cfg idx term selected st = after_issue cfg ?s"
    by (auto simp: handle_selected_def Let_def)
  have "set (log ?s) \<subseteq> set (log (snd (after_issue cfg ?s)))"
    using after_issue_frame [of "{}" ?s cfg] by (simp add: frame_def)
  then have l: "ERR_NO_ID (idx + 1) term \<in> set (log (snd (after_issue cfg ?s)))"
    by (auto simp: log_event_def)
  have z: "0 \<notin> get_existing_tmdb_ids lib" by (simp add: get_existing_tmdb_ids_iff)
  from h l z show ?thesis
    by (simp add: after_issue_fields get_existing_tmdb_ids_iff log_event_def)
qed

theorem falsy_id_is_error_witness:
  "tmdbId no_id_movie = Some 0
   \<and> handle_selected fresh_env live_cfg 0 ''Alien'' no_id_movie enter_run
       = (Next, log_event (ERR_NO_ID 1 ''Alien'') (init_run\<lparr>errors := 1\<rparr>))
   \<and> posted (snd (handle_selected fresh_env live_cfg 0 ''Alien'' no_id_movie enter_run)) = []
   \<and> get_existing_tmdb_ids [no_id_movie, alien_1999] = {11}"
proof -
  have h: "tmdbId no_id_movie = None \<or> tmdbId no_id_movie = Some 0"
    by (simp add: no_id_movie_def)
  have a: "after_issue live_cfg (log_event (ERR_NO_ID (0 + 1) ''Alien'')
             (enter_run\<lparr>errors := errors enter_run + 1\<rparr>))
           = (Next, log_event (ERR_NO_ID 1 ''Alien'') (init_run\<lparr>errors := 1\<rparr>))"
    by code_simp
  have p: "posted enter_run = []" by (simp add: enter_run_def init_run_def)
  have g: "get_existing_tmdb_ids [no_id_movie, alien_1999] = {11}"
    by (simp add: get_existing_tmdb_ids_def map_filter_simps no_id_movie_def alien_1999_def)
  have z: "tmdbId no_id_movie = Some 0" by (simp add: no_id_movie_def)
  note t = falsy_id_is_error [OF h, of fresh_env live_cfg 0 "''Alien''" enter_run "[]"]
  from t have t1: "handle_selected fresh_env live_cfg 0 ''Alien'' no_id_movie enter_run
       = after_issue live_cfg (log_event (ERR_NO_ID (0 + 1) ''Alien'')
             (enter_run\<lparr>errors := errors enter_run + 1\<rparr>))" by (rule conjunct1)
  from t1 a have b: "handle_selected fresh_env live_cfg 0 ''Alien'' no_id_movie enter_run
       = (Next, log_event (ERR_NO_ID 1 ''Alien'') (init_run\<lparr>errors := 1\<rparr>))" by (rule trans)
  from t have "posted (snd (handle_selected fresh_env live_cfg 0 ''Alien'' no_id_movie
       enter_run)) = posted enter_run" by blast
  with p have c: "posted (snd (handle_selected fresh_env live_cfg 0 ''Alien'' no_id_movie
       enter_run)) = []" by simp
  from z b c g show ?thesis by simp
qed


lemma step_ok_trans:
  assumes "frame N st s" and "state_file s = state_file st" and "step_ok N n s r"
  shows "step_ok N n st r"
  using assms frame_trans [of N st s "snd r"] by (simp add: step_ok_def)

lemma step_ok_after_issue:
  assumes "frame N st s" and "state_file s = state_file st" and "n \<in> handled_lines (log s)"
  shows "step_ok N n st (after_issue cfg s)"
proof -
  have f: "frame N s (snd (after_issue cfg s))" by (rule after_issue_frame)
  from frame_handled(1) [OF f] assms(3)
  have "n \<in> handled_lines (log (snd (after_issue cfg s)))" by blast
  with frame_trans [OF assms(1) f] assms(2) show ?thesis
    by (simp add: step_ok_def after_issue_fields)
qed

lemma frame_quiet_event:
  assumes "line_of e = None" and "added_id e = None"
  shows "frame N st (log_event e st)"
  using assms by (auto simp: frame_def log_event_def)

lemma frame_outcome:
  assumes "line_of e = Some n" and "n \<in> N" and "added_id e = None"
    and "log s = log st @ [e]" and "posted s = posted st" and "existing_tmdb s = existing_tmdb st"
    and "writable s = writable st" and "always_continue s = always_continue st"
  shows "frame N st s"
  using assms by (auto simp: frame_def)

lemma handled_last: "line_of e = Some n \<Longrightarrow> n \<in> handled_lines (evs @ [e])"
  by (auto simp: handled_lines_iff)

lemma do_add_ok:
  assumes "tmdbId selected = Some tmdb" and "tmdb \<notin> existing_tmdb st" and "idx + 1 \<in> N"
  shows "step_ok N (idx + 1) st (do_add env cfg idx selected tmdb st)"
proof -
  let ?s1 = "st\<lparr>posted := posted st @ [selected]\<rparr>"
  have f1: "frame N st ?s1" using assms(1,2) by (auto simp: frame_def)
  show ?thesis
  proof (cases "add_movie env idx selected")
    case AddUnauthorized
    then have "do_add env cfg idx selected tmdb st = (SysExit, log_event FATAL ?s1)"
      by (simp add: do_add_def)
    with frame_trans [OF f1 frame_fatal] show ?thesis
      by (simp add: step_ok_def log_event_def)
  next
    case AddFailed
    then have "do_add env cfg idx selected tmdb st = (Exc RequestException, ?s1)"
      by (simp add: do_add_def)
    with f1 show ?thesis by (simp add: step_ok_def)
  next
    case (AddStatus code)
    show ?thesis
    proof (cases "code = 200 \<or> code = 201")
      case True
      let ?s2 = "log_event (ADD (idx + 1) tmdb)
                  (?s1\<lparr>would_add := would_add ?s1 + 1, added := added ?s1 + 1,
                       existing_tmdb := insert tmdb (existing_tmdb ?s1)\<rparr>)"
      from True AddStatus have d: "do_add env cfg idx selected tmdb st = (Next, ?s2)"
        by (simp add: do_add_def Let_def)
      have "frame N st ?s2" using assms by (auto simp: frame_def log_event_def)
      moreover have "idx + 1 \<in> handled_lines (log ?s2)"
        by (simp add: log_event_def handled_last)
      ultimately show ?thesis using d by (simp add: step_ok_def log_event_def)
    next
      case False
      let ?s2 = "log_event (ERR_HTTP (idx + 1) code) (?s1\<lparr>errors := errors ?s1 + 1\<rparr>)"
      from False AddStatus have d: "do_add env cfg idx selected tmdb st = after_issue cfg ?s2"
        by (simp add: do_add_def Let_def)
      have "frame N st ?s2" using assms by (auto simp: frame_def log_event_def)
      moreover have "idx + 1 \<in> handled_lines (log ?s2)"
        by (simp add: log_event_def handled_last)
      moreover have "state_file ?s2 = state_file st" by (simp add: log_event_def)
      ultimately show ?thesis using d step_ok_after_issue by simp
    qed
  qed
qed


lemma handle_selected_ok:
  assumes "idx + 1 \<in> N"
  shows "step_ok N (idx + 1) st (handle_selected env cfg idx term selected st)"
proof -
  let ?m = "log_event (ERR_NO_ID (idx + 1) term) (st\<lparr>errors := errors st + 1\<rparr>)"
  have "frame N st ?m" using assms by (auto simp: frame_def log_event_def)
  moreover have "idx + 1 \<in> handled_lines (log ?m)" by (simp add: log_event_def handled_last)
  moreover have "state_file ?m = state_file st" by (simp add: log_event_def)
  ultimately have missing: "step_ok N (idx + 1) st (after_issue cfg ?m)"
    using step_ok_after_issue by blast
  show ?thesis
  proof (cases "tmdbId selected")
    case None
    with missing show ?thesis by (simp add: handle_selected_def Let_def)
  next
    case (Some tmdb)
    consider (zero) "tmdb = 0"
      | (dup) "tmdb \<noteq> 0" "tmdb \<in> existing_tmdb st"
      | (dry) "tmdb \<noteq> 0" "tmdb \<notin> existing_tmdb st" "DRY_RUN cfg"
      | (ask) "tmdb \<noteq> 0" "tmdb \<notin> existing_tmdb st" "\<not> DRY_RUN cfg" "CONFIRM_EACH_ADD_DEFAULT cfg"
      | (add) "tmdb \<noteq> 0" "tmdb \<notin> existing_tmdb st" "\<not> DRY_RUN cfg" "\<not> CONFIRM_EACH_ADD_DEFAULT cfg"
      by blast
    then show ?thesis
    proof cases
      case zero
      with Some missing show ?thesis by (simp add: handle_selected_def Let_def)
    next
      case dup
      let ?s = "log_event (DUP (idx + 1) tmdb) (st\<lparr>duplicates := duplicates st + 1\<rparr>)"
      from dup Some have d: "handle_selected env cfg idx term selected st = (Next, ?s)"
        by (simp add: handle_selected_def Let_def)
      have "frame N st ?s" using assms by (auto simp: frame_def log_event_def)
      moreover have "idx + 1 \<in> handled_lines (log ?s)" by (simp add: log_event_def handled_last)
      ultimately show ?thesis using d by (simp add: step_ok_def log_event_def)
    next
      case dry
      let ?s = "log_event (DRY (idx + 1) tmdb)
                  (st\<lparr>would_add := would_add st + 1,
                      dryrun_hits := dryrun_hits st @ [selected\<lparr>payload := []\<rparr>],
                      existing_tmdb := insert tmdb (existing_tmdb st)\<rparr>)"
      from dry Some have d: "handle_selected env cfg idx term selected st = (Next, ?s)"
        by (simp add: handle_selected_def Let_def)
      have "frame N st ?s" using assms dry(2) by (auto simp: frame_def log_event_def)
      moreover have "idx + 1 \<in> handled_lines (log ?s)" by (simp add: log_event_def handled_last)
      ultimately show ?thesis using d by (simp add: step_ok_def log_event_def)
    next
      case ask
      obtain r s1 where p: "prompt_confirm_add cfg st = (r, s1)"
        by (cases "prompt_confirm_add cfg st")
      with prompt_confirm_add_io [of st cfg] have io: "only_io st s1" by simp
      note f = only_io_fields [OF io]
      have f1: "frame N st s1" using io by (rule only_io_frame)
      show ?thesis
      proof (cases r)
        case (Raised e)
        with ask Some p have "handle_selected env cfg idx term selected st = (Exc e, s1)"
          by (simp add: handle_selected_def Let_def)
        with f1 f(4) show ?thesis by (simp add: step_ok_def)
      next
        case (Ret b)
        show ?thesis
        proof (cases b)
          case False
          let ?s = "log_event (USER_SKIP (idx + 1) tmdb) (s1\<lparr>skipped := skipped s1 + 1\<rparr>)"
          from False Ret ask Some p
          have d: "handle_selected env cfg idx term selected st = (Next, ?s)"
            by (simp add: handle_selected_def Let_def)
          have "frame N s1 ?s" using assms by (auto simp: frame_def log_event_def)
          with f1 have "frame N st ?s" by (rule frame_trans)
          moreover have "idx + 1 \<in> handled_lines (log ?s)"
            by (simp add: log_event_def handled_last)
          ultimately show ?thesis using d f(4) by (simp add: step_ok_def log_event_def)
        next
          case True
          with Ret ask Some p
          have d: "handle_selected env cfg idx term selected st
                     = do_add env cfg idx selected tmdb s1"
            by (simp add: handle_selected_def Let_def)
          from ask(2) f(3) have "tmdb \<notin> existing_tmdb s1" by simp
          from do_add_ok [OF Some this assms]
          have "step_ok N (idx + 1) s1 (do_add env cfg idx selected tmdb s1)" .
          from step_ok_trans [OF f1 f(4) this] d show ?thesis by simp
        qed
      qed
    next
      case add
      with Some have "handle_selected env cfg idx term selected st
                     = do_add env cfg idx selected tmdb st"
        by (simp add: handle_selected_def Let_def)
      with do_add_ok [OF Some add(2) assms] show ?thesis by simp
    qed
  qed
qed

lemma resolve_filtered_frame:
  "frame N st (snd (resolve_filtered cfg term filtered desired_year st))
   \<and> state_file (snd (resolve_filtered cfg term filtered desired_year st)) = state_file st"
proof (cases "filtered \<noteq> [] \<and> shortcut term filtered desired_year = None
    \<and> INTERACTIVE_ON_ISSUES cfg \<and> \<not> always_continue st \<and> length filtered > 1")
  case True
  let ?shown = "take MAX_CHOICES_TO_SHOW filtered"
  let ?s1 = "log_event (AMBIG term ?shown) st"
  from True have r: "resolve_filtered cfg term filtered desired_year st
      = choose_loop cfg ?shown (stdin ?s1) ?s1"
    by (simp add: resolve_filtered_def Let_def)
  have io: "only_io ?s1 (snd (choose_loop cfg ?shown (stdin ?s1) ?s1))" by (rule choose_loop_io)
  have "frame N st ?s1" by (rule frame_quiet_event) simp_all
  from frame_trans [OF this only_io_frame [OF io]] only_io_fields(4) [OF io] r
  show ?thesis by (simp add: log_event_def)
next
  case False
  then have "snd (resolve_filtered cfg term filtered desired_year st) = st"
    by (auto simp: resolve_filtered_def Let_def split: option.splits)
  then show ?thesis by (simp add: frame_refl)
qed

lemma choose_from_results_frame:
  "frame N st (snd (choose_from_results cfg term results desired_year st))
   \<and> state_file (snd (choose_from_results cfg term results desired_year st)) = state_file st"
proof (cases "\<exists>y. desired_year = Some y \<and> STRICT_YEAR_MATCH cfg \<and> year_matches results y = []")
  case False
  then have "\<exists>fl. choose_from_results cfg term results desired_year st
      = resolve_filtered cfg term fl desired_year st"
    by (auto simp: choose_from_results_def split: option.splits)
  then obtain fl where "choose_from_results cfg term results desired_year st
      = resolve_filtered cfg term fl desired_year st" by blast
  with resolve_filtered_frame [of N st cfg "term" fl desired_year] show ?thesis by simp
next
  case True
  then obtain y where y: "desired_year = Some y" "STRICT_YEAR_MATCH cfg"
    "year_matches results y = []" by blast
  let ?s1 = "log_event (YEAR_MISS term y) st"
  obtain r s2 where p: "prompt_continue cfg ?s1 = (r, s2)" by (cases "prompt_continue cfg ?s1")
  with prompt_continue_io [of ?s1 cfg] have io: "only_io ?s1 s2" by simp
  have "frame N st ?s1" by (rule frame_quiet_event) simp_all
  from frame_trans [OF this only_io_frame [OF io]] have f2: "frame N st s2" .
  from only_io_fields(4) [OF io] have sf: "state_file s2 = state_file st"
    by (simp add: log_event_def)
  show ?thesis
  proof (cases r)
    case (Raised e)
    with y p have "snd (choose_from_results cfg term results desired_year st) = s2"
      by (simp add: choose_from_results_def)
    with f2 sf show ?thesis by simp
  next
    case (Ret b)
    show ?thesis
    proof (cases b)
      case False
      with Ret y p have "snd (choose_from_results cfg term results desired_year st) = s2"
        by (simp add: choose_from_results_def)
      with f2 sf show ?thesis by simp
    next
      case True
      with Ret y p have e: "choose_from_results cfg term results desired_year st
          = resolve_filtered cfg term results desired_year s2"
        by (simp add: choose_from_results_def)
      note rf = resolve_filtered_frame [of N s2 cfg "term" results desired_year]
      from rf have "frame N s2 (snd (resolve_filtered cfg term results desired_year s2))"
        by (rule conjunct1)
      from frame_trans [OF f2 this] rf sf e show ?thesis by simp
    qed
  qed
qed


lemma try_block_ok:
  assumes "idx + 1 \<in> N"
  shows "step_ok N (idx + 1) st (try_block env cfg idx term desired_year st)"
proof (cases "lookup env idx term")
  case LookupUnauthorized
  then have "try_block env cfg idx term desired_year st = (SysExit, log_event FATAL st)"
    by (simp add: try_block_def)
  then show ?thesis using frame_fatal [of N st] by (simp add: step_ok_def log_event_def)
next
  case LookupFailed
  then have "try_block env cfg idx term desired_year st = (Exc RequestException, st)"
    by (simp add: try_block_def)
  then show ?thesis by (simp add: step_ok_def frame_refl)
next
  case (LookupResults results)
  show ?thesis
  proof (cases "results = []")
    case True
    let ?s = "log_event (MISS (idx + 1) term) (st\<lparr>misses := misses st + 1\<rparr>)"
    from True LookupResults
    have d: "try_block env cfg idx term desired_year st = after_issue cfg ?s"
      by (simp add: try_block_def)
    have "frame N st ?s" using assms by (auto simp: frame_def log_event_def)
    moreover have "idx + 1 \<in> handled_lines (log ?s)" by (simp add: log_event_def handled_last)
    moreover have "state_file ?s = state_file st" by (simp add: log_event_def)
    ultimately show ?thesis using d step_ok_after_issue by simp
  next
    case False
    obtain r s1 where c: "choose_from_results cfg term results desired_year st = (r, s1)"
      by (cases "choose_from_results cfg term results desired_year st")
    with choose_from_results_frame [of N st cfg "term" results desired_year]
    have f1: "frame N st s1" and sf: "state_file s1 = state_file st" by simp_all
    show ?thesis
    proof (cases r)
      case (Raised e)
      with False LookupResults c
      have "try_block env cfg idx term desired_year st = (Exc e, s1)"
        by (simp add: try_block_def)
      with f1 sf show ?thesis by (simp add: step_ok_def)
    next
      case (Ret sel)
      show ?thesis
      proof (cases sel)
        case ABORT
        with Ret False LookupResults c
        have "try_block env cfg idx term desired_year st = (SysExit, log_event FATAL s1)"
          by (simp add: try_block_def)
        with frame_trans [OF f1 frame_fatal] sf show ?thesis
          by (simp add: step_ok_def log_event_def)
      next
        case NoSelection
        let ?s = "log_event (SKIP (idx + 1) term) (s1\<lparr>skipped := skipped s1 + 1\<rparr>)"
        from NoSelection Ret False LookupResults c
        have d: "try_block env cfg idx term desired_year st = after_issue cfg ?s"
          by (simp add: try_block_def)
        have "frame N s1 ?s" using assms by (auto simp: frame_def log_event_def)
        with f1 have "frame N st ?s" by (rule frame_trans)
        moreover have "idx + 1 \<in> handled_lines (log ?s)"
          by (simp add: log_event_def handled_last)
        moreover have "state_file ?s = state_file st" using sf by (simp add: log_event_def)
        ultimately show ?thesis using d step_ok_after_issue by simp
      next
        case (Selected m)
        with Ret False LookupResults c
        have d: "try_block env cfg idx term desired_year st
                   = handle_selected env cfg idx term m s1"
          by (simp add: try_block_def)
        from step_ok_trans [OF f1 sf handle_selected_ok [OF assms]] d show ?thesis by simp
      qed
    qed
  qed
qed

lemma loop_body_cap:
  assumes "s2 = (save_state (idx + 1) st)\<lparr>processed := processed (save_state (idx + 1) st) + 1\<rparr>"
    and "cap_reached cfg s2"
  shows "loop_body env cfg idx term st = (Break, log_event STOP s2)"
  using assms by (simp add: loop_body_def Let_def)

lemma loop_body_try:
  assumes "s2 = (save_state (idx + 1) st)\<lparr>processed := processed (save_state (idx + 1) st) + 1\<rparr>"
    and "\<not> cap_reached cfg s2"
    and "try_block env cfg idx term (snd (parse_title_year term)) s2 = (f, s3)"
  shows "loop_body env cfg idx term st =
     (case f of
        Next \<Rightarrow> (Continue, s3)
      | SysExit \<Rightarrow> (Exit, s3)
      | Exc e \<Rightarrow>
          (case after_issue cfg (log_event (FAIL (idx + 1) e) (s3\<lparr>errors := errors s3 + 1\<rparr>)) of
             (Next, st4) \<Rightarrow> (Continue, st4)
           | (SysExit, st4) \<Rightarrow> (Exit, st4)
           | (Exc e', st4) \<Rightarrow> (Uncaught e', st4)))"
  using assms by (simp add: loop_body_def Let_def)

lemma loop_body_ok:
  assumes "idx + 1 \<in> N" and "loop_body env cfg idx term st = (c, st')"
  shows "frame N st st'"
    and "writable st \<Longrightarrow> state_file st' = Content (JDict [(''next_index'', JInt (idx + 1))])"
    and "c = Continue \<Longrightarrow> idx + 1 \<in> handled_lines (log st')"
proof -
  define s2 where
    "s2 = (save_state (idx + 1) st)\<lparr>processed := processed (save_state (idx + 1) st) + 1\<rparr>"
  let ?J = "Content (JDict [(''next_index'', JInt (idx + 1))])"
  have f2: "frame N st s2" by (auto simp: s2_def frame_def save_state_def)
  have sf2: "writable st \<longrightarrow> state_file s2 = ?J" by (simp add: s2_def save_state_def)
  have all: "frame N st st' \<and> (writable st \<longrightarrow> state_file st' = ?J)
      \<and> (c = Continue \<longrightarrow> idx + 1 \<in> handled_lines (log st'))"
  proof (cases "cap_reached cfg s2")
    case True
    from loop_body_cap [OF s2_def True] assms(2)
    have "c = Break" and e: "st' = log_event STOP s2" by simp_all
    have "frame N s2 (log_event STOP s2)" by (rule frame_quiet_event) simp_all
    from frame_trans [OF f2 this] e have "frame N st st'" by simp
    moreover from e sf2 have "writable st \<longrightarrow> state_file st' = ?J" by (simp add: log_event_def)
    ultimately show ?thesis using \<open>c = Break\<close> by simp
  next
    case False
    obtain f s3 where t: "try_block env cfg idx term (snd (parse_title_year term)) s2 = (f, s3)"
      by (cases "try_block env cfg idx term (snd (parse_title_year term)) s2")
    note lb = loop_body_try [OF s2_def False t]
    from try_block_ok [OF assms(1), of s2 env cfg "term" "snd (parse_title_year term)"] t
    have f3: "frame N s2 s3" and sf3: "state_file s3 = state_file s2"
      and h3: "f = Next \<longrightarrow> idx + 1 \<in> handled_lines (log s3)"
      by (simp_all add: step_ok_def)
    from frame_trans [OF f2 f3] have f03: "frame N st s3" .
    from sf3 sf2 have sf03: "writable st \<longrightarrow> state_file s3 = ?J" by simp
    show ?thesis
    proof (cases f)
      case Next
      with lb assms(2) have "c = Continue" and "st' = s3" by simp_all
      with f03 sf03 h3 Next show ?thesis by simp
    next
      case SysExit
      with lb assms(2) have "c = Exit" and "st' = s3" by simp_all
      with f03 sf03 show ?thesis by simp
    next
      case (Exc e)
      define s where "s = log_event (FAIL (idx + 1) e) (s3\<lparr>errors := errors s3 + 1\<rparr>)"
      have "frame N s3 s" using assms(1) by (auto simp: s_def frame_def log_event_def)
      moreover have "state_file s = state_file s3" by (simp add: s_def log_event_def)
      moreover have "idx + 1 \<in> handled_lines (log s)"
        by (simp add: s_def log_event_def handled_last)
      ultimately have ok: "step_ok N (idx + 1) s3 (after_issue cfg s)"
        using step_ok_after_issue by blast
      obtain f4 s4 where a: "after_issue cfg s = (f4, s4)" by (cases "after_issue cfg s")
      with ok have f4: "frame N s3 s4" and sf4: "state_file s4 = state_file s3"
        and h4: "f4 = Next \<longrightarrow> idx + 1 \<in> handled_lines (log s4)"
        by (simp_all add: step_ok_def)
      from lb Exc a assms(2) have r: "(c, st') =
          (case f4 of Next \<Rightarrow> (Continue, s4) | SysExit \<Rightarrow> (Exit, s4) | Exc e' \<Rightarrow> (Uncaught e', s4))"
        by (simp add: s_def)
      then have "st' = s4" by (cases f4) simp_all
      moreover from r have "c = Continue \<longrightarrow> f4 = Next" by (cases f4) simp_all
      moreover from sf4 sf03 have "writable st \<longrightarrow> state_file s4 = ?J" by simp
      ultimately show ?thesis using frame_trans [OF f03 f4] h4 by simp
    qed
  qed
  from all show "frame N st st'" by simp
  from all show "writable st \<Longrightarrow> state_file st' = ?J" by simp
  from all show "c = Continue \<Longrightarrow> idx + 1 \<in> handled_lines (log st')" by simp
qed


lemma main_loop_done:
  "\<not> idx < int (length movies) \<Longrightarrow> main_loop env cfg movies idx st = (Continue, st)"
  by (subst main_loop.simps) simp

lemma main_loop_crash:
  "idx < int (length movies) \<Longrightarrow> py_index movies idx = Inl e
     \<Longrightarrow> main_loop env cfg movies idx st = (Uncaught e, st)"
  by (subst main_loop.simps) simp

lemma main_loop_step:
  assumes "idx < int (length movies)" and "py_index movies idx = Inr t"
    and "loop_body env cfg idx t st = (c, st1)"
  shows "main_loop env cfg movies idx st
           = (if c = Continue then main_loop env cfg movies (idx + 1) st1 else (c, st1))"
  using assms by (subst main_loop.simps) (cases c; simp)

lemma py_index_in_range:
  "0 \<le> idx \<Longrightarrow> idx < int (length movies) \<Longrightarrow> py_index movies idx = Inr (movies ! nat idx)"
  by (simp add: py_index_def)


section \<open>The loop over the lines\<close>

lemma main_loop_frame:
  "frame {n. idx < n} st (snd (main_loop env cfg movies idx st))"
proof (induction env cfg movies idx st rule: main_loop.induct)
  case (1 env cfg movies idx st)
  show ?case
  proof (cases "idx < int (length movies)")
    case False
    then show ?thesis by (simp add: main_loop_done frame_refl)
  next
    case True
    show ?thesis
    proof (cases "py_index movies idx")
      case (Inl e)
      with True show ?thesis by (simp add: main_loop_crash frame_refl)
    next
      case (Inr t)
      obtain c st1 where lb: "loop_body env cfg idx t st = (c, st1)"
        by (cases "loop_body env cfg idx t st")
      have "idx + 1 \<in> {n. idx < n}" by simp
      from loop_body_ok(1) [OF this lb] have f1: "frame {n. idx < n} st st1" .
      note step = main_loop_step [OF True Inr lb]
      show ?thesis
      proof (cases "c = Continue")
        case False
        with step f1 show ?thesis by simp
      next
        case c: True
        from "1.IH" [OF True Inr lb [symmetric] c]
        have "frame {n. idx + 1 < n} st1 (snd (main_loop env cfg movies (idx + 1) st1))" .
        then have "frame {n. idx < n} st1 (snd (main_loop env cfg movies (idx + 1) st1))"
          by (rule frame_mono) auto
        from frame_trans [OF f1 this] step c show ?thesis by simp
      qed
    qed
  qed
qed

lemma main_loop_progress:
  "writable st \<longrightarrow> 0 \<le> idx \<longrightarrow> idx < int (length movies) \<longrightarrow>
     (\<exists>k. idx \<le> k \<and> k < int (length movies)
        \<and> state_file (snd (main_loop env cfg movies idx st))
            = Content (JDict [(''next_index'', JInt (k + 1))])
        \<and> (\<forall>j. idx \<le> j \<and> j < k
              \<longrightarrow> j + 1 \<in> handled_lines (log (snd (main_loop env cfg movies idx st))))
        \<and> (fst (main_loop env cfg movies idx st) = Continue
              \<longrightarrow> k + 1 = int (length movies)
                \<and> k + 1 \<in> handled_lines (log (snd (main_loop env cfg movies idx st)))))"
proof (induction env cfg movies idx st rule: main_loop.induct)
  case (1 env cfg movies idx st)
  show ?case
  proof (intro impI)
    assume w: "writable st" and nn: "0 \<le> idx" and lt: "idx < int (length movies)"
    from py_index_in_range [OF nn lt] obtain t where t: "py_index movies idx = Inr t" by blast
    obtain c st1 where lb: "loop_body env cfg idx t st = (c, st1)"
      by (cases "loop_body env cfg idx t st")
    have "idx + 1 \<in> {n. idx < n}" by simp
    note ok = loop_body_ok [OF this lb]
    from ok(2) [OF w] have sf1: "state_file st1 = Content (JDict [(''next_index'', JInt (idx + 1))])" .
    from ok(1) w have w1: "writable st1" by (simp add: frame_def)
    note step = main_loop_step [OF lt t lb]
    let ?R = "main_loop env cfg movies idx st"
    show "\<exists>k. idx \<le> k \<and> k < int (length movies)
        \<and> state_file (snd ?R) = Content (JDict [(''next_index'', JInt (k + 1))])
        \<and> (\<forall>j. idx \<le> j \<and> j < k \<longrightarrow> j + 1 \<in> handled_lines (log (snd ?R)))
        \<and> (fst ?R = Continue
              \<longrightarrow> k + 1 = int (length movies) \<and> k + 1 \<in> handled_lines (log (snd ?R)))"
    proof (cases "c = Continue")
      case False
      with step have "?R = (c, st1)" by simp
      with False sf1 lt show ?thesis by (intro exI [of _ idx]) auto
    next
      case c: True
      with step have r: "?R = main_loop env cfg movies (idx + 1) st1" by simp
      from ok(3) [OF c] have h1: "idx + 1 \<in> handled_lines (log st1)" .
      show ?thesis
      proof (cases "idx + 1 < int (length movies)")
        case False
        with r have "?R = (Continue, st1)" by (simp add: main_loop_done)
        moreover from False lt have "idx + 1 = int (length movies)" by simp
        ultimately show ?thesis using sf1 h1 lt by (intro exI [of _ idx]) auto
      next
        case True
        from "1.IH" [OF lt t lb [symmetric] c] w1 nn True r
        obtain k where k: "idx + 1 \<le> k" "k < int (length movies)"
          "state_file (snd ?R) = Content (JDict [(''next_index'', JInt (k + 1))])"
          "\<forall>j. idx + 1 \<le> j \<and> j < k \<longrightarrow> j + 1 \<in> handled_lines (log (snd ?R))"
          "fst ?R = Continue
              \<longrightarrow> k + 1 = int (length movies) \<and> k + 1 \<in> handled_lines (log (snd ?R))"
          by auto
        from frame_handled(1) [OF main_loop_frame [of "idx + 1" st1 env cfg movies]] h1 r
        have h: "idx + 1 \<in> handled_lines (log (snd ?R))" by auto
        have "\<forall>j. idx \<le> j \<and> j < k \<longrightarrow> j + 1 \<in> handled_lines (log (snd ?R))"
        proof (intro allI impI)
          fix j assume j: "idx \<le> j \<and> j < k"
          show "j + 1 \<in> handled_lines (log (snd ?R))"
          proof (cases "j = idx")
            case True
            with h show ?thesis by simp
          next
            case False
            with j have "idx + 1 \<le> j \<and> j < k" by simp
            with k(4) show ?thesis by blast
          qed
        qed
        with k show ?thesis by (intro exI [of _ k]) auto
      qed
    qed
  qed
qed


section \<open>Resume state\<close>

lemma start_index_saved:
  "start_index cfg (Content (JDict [(''next_index'', JInt n)])) = Inr n"
  by (simp add: start_index_def load_state_def)

lemma handled_quiet: "line_of e = None \<Longrightarrow> handled_lines (evs @ [e]) = handled_lines evs"
  by (auto simp: handled_lines_iff)

text \<open>
  Against the statement of C2 that no line below the saved index is left
  unhandled. The service rejects the key at the lookup of the first of four lines:
  the run ends there with the state file already holding 1, while the first line
  has no outcome and no add was sent. The next run, with the service working,
  starts at 1 and handles the lines 2, 3 and 4; the first line is never handled.
\<close>

theorem saved_before_handled_counterexample:
  "fst (main_import rejecting_env auto_cfg four_lines init_run) = Exit
   \<and> state_file aborted_run = Content (JDict [(''next_index'', JInt 1)])
   \<and> 1 \<notin> handled_lines (log aborted_run)
   \<and> posted aborted_run = []
   \<and> start_index auto_cfg (state_file aborted_run) = Inr 1
   \<and> fst (main_import fresh_env auto_cfg four_lines aborted_run) = Continue
   \<and> handled_lines (log (snd (main_import fresh_env auto_cfg four_lines aborted_run)))
       = {2, 3, 4}"
  by code_simp

text \<open>
  C2, amended. Take a run with a writable state file whose stored start index
  \<open>start\<close> lies between 0 and the number of lines, and which is not halted by the
  cap. At its end the stored index \<open>k\<close> lies between \<open>start\<close> and the number of
  lines; it was saved at the start of the iteration for line \<open>k - 1\<close>, before that
  line is handled. Every line from \<open>start\<close> on whose index is below \<open>k - 1\<close> has a
  recorded outcome; when the run completes, \<open>k\<close> is the number of lines and every
  line from \<open>start\<close> on has one; when the run is cut short, line \<open>k - 1\<close> may have
  none. The run records outcomes only for lines from \<open>start\<close> on, so a run that
  resumes at a stored index never processes a line below it again.
\<close>

theorem resume_invariant:
  assumes "writable st0"
    and "start_index cfg (state_file st0) = Inr start"
    and "0 \<le> start" and "start \<le> int (length (read_input file_lines))"
    and "fst (main_import env cfg file_lines st0) \<noteq> Break"
  shows "\<exists>k. start \<le> k \<and> k \<le> int (length (read_input file_lines))
      \<and> start_index cfg (state_file (snd (main_import env cfg file_lines st0))) = Inr k
      \<and> (\<forall>j. start \<le> j \<and> j + 1 < k
            \<longrightarrow> j + 1 \<in> handled_lines (log (snd (main_import env cfg file_lines st0))))
      \<and> (fst (main_import env cfg file_lines st0) = Continue
            \<longrightarrow> k = int (length (read_input file_lines))
              \<and> (\<forall>j. start \<le> j \<and> j < k
                    \<longrightarrow> j + 1 \<in> handled_lines (log (snd (main_import env cfg file_lines st0)))))
      \<and> handled_lines (log (snd (main_import env cfg file_lines st0)))
            \<subseteq> handled_lines (log st0) \<union> {n. start < n}"
proof -
  let ?movies = "read_input file_lines"
  let ?n = "int (length ?movies)"
  let ?st = "reset_tracking st0"
  let ?R = "main_import env cfg file_lines st0"
  have sf: "state_file ?st = state_file st0" and lg: "log ?st = log st0"
    and wr: "writable ?st" using assms(1) by (simp_all add: reset_tracking_def)
  from assms(2) sf have si: "start_index cfg (state_file ?st) = Inr start" by simp
  have quiet: "?R = (Exit, log_event FATAL ?st) \<Longrightarrow> ?thesis"
  proof -
    assume r: "?R = (Exit, log_event FATAL ?st)"
    have "handled_lines (log (log_event FATAL ?st)) = handled_lines (log st0)"
      by (simp add: log_event_def handled_quiet lg)
    moreover have "state_file (log_event FATAL ?st) = state_file st0"
      by (simp add: log_event_def sf)
    ultimately show ?thesis using r assms(2,3,4) by (intro exI [of _ start]) auto
  qed
  show ?thesis
  proof (cases "library env")
    case LookupUnauthorized
    with si have "?R = (Exit, log_event FATAL ?st)" by (simp add: main_import_def Let_def)
    then show ?thesis by (rule quiet)
  next
    case LookupFailed
    with si have "?R = (Exit, log_event FATAL ?st)" by (simp add: main_import_def Let_def)
    then show ?thesis by (rule quiet)
  next
    case (LookupResults lib)
    let ?s1 = "?st\<lparr>existing_tmdb := get_existing_tmdb_ids lib\<rparr>"
    obtain c s2 where ml: "main_loop env cfg ?movies start ?s1 = (c, s2)"
      by (cases "main_loop env cfg ?movies start ?s1")
    from si LookupResults ml have R: "?R =
        (case c of Continue \<Rightarrow> (Continue, save_state ?n s2)
         | Break \<Rightarrow> (Break, save_state ?n s2)
         | Exit \<Rightarrow> (Exit, s2) | Uncaught e \<Rightarrow> (Uncaught e, s2))"
      by (simp add: main_import_def Let_def)
    from main_loop_frame [of start ?s1 env cfg ?movies] ml
    have f: "frame {n. start < n} ?s1 s2" by simp
    from f wr have w2: "writable s2" by (simp add: frame_def)
    from frame_handled(2) [OF f] lg
    have h2: "handled_lines (log s2) \<subseteq> handled_lines (log st0) \<union> {n. start < n}" by simp
    have lsave: "log (save_state ?n s2) = log s2" by (simp add: save_state_def)
    from w2 have ssave: "start_index cfg (state_file (save_state ?n s2)) = Inr ?n"
      by (simp add: save_state_def start_index_saved)
    from assms(5) R have nb: "c \<noteq> Break" by auto
    show ?thesis
    proof (cases "start < ?n")
      case False
      with assms(4) have e: "start = ?n" by simp
      with ml have "c = Continue" and "s2 = ?s1" by (simp_all add: main_loop_done)
      with R have r: "?R = (Continue, save_state ?n s2)" by simp
      with lsave ssave h2 e show ?thesis by (intro exI [of _ start]) auto
    next
      case True
      from main_loop_progress [of ?s1 start ?movies env cfg] wr assms(3) True ml
      obtain k0 where k0: "start \<le> k0" "k0 < ?n"
        "state_file s2 = Content (JDict [(''next_index'', JInt (k0 + 1))])"
        "\<forall>j. start \<le> j \<and> j < k0 \<longrightarrow> j + 1 \<in> handled_lines (log s2)"
        "c = Continue \<longrightarrow> k0 + 1 = ?n \<and> k0 + 1 \<in> handled_lines (log s2)"
        by auto
      show ?thesis
      proof (cases "c = Continue")
        case True
        with R have r: "?R = (Continue, save_state ?n s2)" by simp
        from True k0(5) have last: "k0 + 1 = ?n" "k0 + 1 \<in> handled_lines (log s2)" by blast+
        have "\<forall>j. start \<le> j \<and> j < ?n \<longrightarrow> j + 1 \<in> handled_lines (log s2)"
        proof (intro allI impI)
          fix j assume j: "start \<le> j \<and> j < ?n"
          show "j + 1 \<in> handled_lines (log s2)"
          proof (cases "j = k0")
            case True
            with last show ?thesis by simp
          next
            case False
            with j last have "start \<le> j \<and> j < k0" by simp
            with k0(4) show ?thesis by blast
          qed
        qed
        with r lsave ssave h2 assms(4) show ?thesis by (intro exI [of _ ?n]) auto
      next
        case False
        with nb R have r: "snd ?R = s2" and c: "fst ?R \<noteq> Continue" by (cases c; simp)+
        from k0(3) have "start_index cfg (state_file s2) = Inr (k0 + 1)"
          by (simp add: start_index_saved)
        with r c k0 h2 show ?thesis by (intro exI [of _ "k0 + 1"]) auto
      qed
    qed
  qed
qed

theorem resume_invariant_witness:
  "writable init_run \<and> start_index auto_cfg (state_file init_run) = Inr 0
   \<and> (0::int) \<le> int (length (read_input four_lines))
   \<and> fst (main_import late_reject_env auto_cfg four_lines init_run) \<noteq> Break
   \<and> start_index auto_cfg
        (state_file (snd (main_import late_reject_env auto_cfg four_lines init_run))) = Inr 3
   \<and> 1 \<in> handled_lines (log (snd (main_import late_reject_env auto_cfg four_lines init_run)))
   \<and> 2 \<in> handled_lines (log (snd (main_import late_reject_env auto_cfg four_lines init_run)))
   \<and> 3 \<notin> handled_lines (log (snd (main_import late_reject_env auto_cfg four_lines init_run)))
   \<and> fst (main_import fresh_env auto_cfg four_lines init_run) = Continue
   \<and> start_index auto_cfg
        (state_file (snd (main_import fresh_env auto_cfg four_lines init_run))) = Inr 4
   \<and> 4 \<in> handled_lines (log (snd (main_import fresh_env auto_cfg four_lines init_run)))"
proof -
  let ?R1 = "main_import late_reject_env auto_cfg four_lines init_run"
  let ?R2 = "main_import fresh_env auto_cfg four_lines init_run"
  have w: "writable init_run" by (simp add: init_run_def)
  have s: "start_index auto_cfg (state_file init_run) = Inr 0" by code_simp
  have z: "(0::int) \<le> 0" by simp
  have n: "int (length (read_input four_lines)) = 4" by code_simp
  then have l: "(0::int) \<le> int (length (read_input four_lines))" by simp
  have b1: "fst ?R1 \<noteq> Break" by code_simp
  have e1: "start_index auto_cfg (state_file (snd ?R1)) = Inr 3" by code_simp
  have u1: "3 \<notin> handled_lines (log (snd ?R1))" by code_simp
  note t1 = resume_invariant [OF w s z l b1]
  then obtain k where kk: "0 \<le> k \<and> k \<le> int (length (read_input four_lines))
      \<and> start_index auto_cfg (state_file (snd ?R1)) = Inr k
      \<and> (\<forall>j. 0 \<le> j \<and> j + 1 < k \<longrightarrow> j + 1 \<in> handled_lines (log (snd ?R1)))
      \<and> (fst ?R1 = Continue
            \<longrightarrow> k = int (length (read_input four_lines))
              \<and> (\<forall>j. 0 \<le> j \<and> j < k \<longrightarrow> j + 1 \<in> handled_lines (log (snd ?R1))))
      \<and> handled_lines (log (snd ?R1)) \<subseteq> handled_lines (log init_run) \<union> {n. 0 < n}"
    by (rule exE)
  from kk have k1: "start_index auto_cfg (state_file (snd ?R1)) = Inr k"
    by (elim conjE)
  from kk have k2: "\<forall>j. 0 \<le> j \<and> j + 1 < k \<longrightarrow> j + 1 \<in> handled_lines (log (snd ?R1))"
    by (elim conjE)
  from k1 e1 have k3: "k = 3" by simp
  from k2 [rule_format, of 0] k3 have h1: "1 \<in> handled_lines (log (snd ?R1))" by simp
  from k2 [rule_format, of 1] k3 have h2: "2 \<in> handled_lines (log (snd ?R1))" by simp
  have c2: "fst ?R2 = Continue" by code_simp
  then have b2: "fst ?R2 \<noteq> Break" by simp
  note t2 = resume_invariant [OF w s z l b2]
  then obtain k' where kk': "0 \<le> k' \<and> k' \<le> int (length (read_input four_lines))
      \<and> start_index auto_cfg (state_file (snd ?R2)) = Inr k'
      \<and> (\<forall>j. 0 \<le> j \<and> j + 1 < k' \<longrightarrow> j + 1 \<in> handled_lines (log (snd ?R2)))
      \<and> (fst ?R2 = Continue
            \<longrightarrow> k' = int (length (read_input four_lines))
              \<and> (\<forall>j. 0 \<le> j \<and> j < k' \<longrightarrow> j + 1 \<in> handled_lines (log (snd ?R2))))
      \<and> handled_lines (log (snd ?R2)) \<subseteq> handled_lines (log init_run) \<union> {n. 0 < n}"
    by (rule exE)
  from kk' have k1': "start_index auto_cfg (state_file (snd ?R2)) = Inr k'"
    by (elim conjE)
  from kk' have "fst ?R2 = Continue
            \<longrightarrow> k' = int (length (read_input four_lines))
              \<and> (\<forall>j. 0 \<le> j \<and> j < k' \<longrightarrow> j + 1 \<in> handled_lines (log (snd ?R2)))"
    by (elim conjE)
  from this c2 have both: "k' = int (length (read_input four_lines))
              \<and> (\<forall>j. 0 \<le> j \<and> j < k' \<longrightarrow> j + 1 \<in> handled_lines (log (snd ?R2)))"
    by (rule mp)
  from both have k2': "k' = int (length (read_input four_lines))" by (rule conjunct1)
  from both have k3': "\<forall>j. 0 \<le> j \<and> j < k' \<longrightarrow> j + 1 \<in> handled_lines (log (snd ?R2))"
    by (rule conjunct2)
  from k2' n have k4: "k' = 4" by simp
  with k1' have e2: "start_index auto_cfg (state_file (snd ?R2)) = Inr 4" by simp
  from k3' [rule_format, of 3] k4 have h4: "4 \<in> handled_lines (log (snd ?R2))" by simp
  from w s l b1 e1 h1 h2 u1 c2 e2 h4 show ?thesis by (intro conjI)
qed


section \<open>Duplicate index\<close>

text \<open>
  C6. From any state of the run to the end of the loop, the duplicate index only
  grows. Every add and simulated add logged on the way, and every add request sent,
  is for an identifier that was not in the index at that state, and the identifier of
  each such add or simulated add is in the index at the end. A line whose resolved
  candidate has an identifier already in the index is counted and logged as a
  duplicate, falls through to the next line, and sends no add request.
\<close>

theorem duplicate_index_monotone:
  "existing_tmdb st \<subseteq> existing_tmdb (snd (main_loop env cfg movies idx st))
   \<and> (\<forall>e \<in> set (log (snd (main_loop env cfg movies idx st))) - set (log st).
        \<forall>x. added_id e = Some x \<longrightarrow>
          x \<notin> existing_tmdb st \<and> x \<in> existing_tmdb (snd (main_loop env cfg movies idx st)))
   \<and> (\<forall>m \<in> set (posted (snd (main_loop env cfg movies idx st))) - set (posted st).
        \<forall>x. tmdbId m = Some x \<longrightarrow> x \<notin> existing_tmdb st)
   \<and> (tmdbId selected = Some x \<and> x \<noteq> 0 \<and> x \<in> existing_tmdb st \<longrightarrow>
        handle_selected env cfg idx term selected st
          = (Next, log_event (DUP (idx + 1) x) (st\<lparr>duplicates := duplicates st + 1\<rparr>))
        \<and> posted (snd (handle_selected env cfg idx term selected st)) = posted st
        \<and> dryrun_hits (snd (handle_selected env cfg idx term selected st)) = dryrun_hits st)"
proof -
  let ?R = "main_loop env cfg movies idx st"
  have f: "frame {n. idx < n} st (snd ?R)" by (rule main_loop_frame)
  from f have a: "existing_tmdb st \<subseteq> existing_tmdb (snd ?R)"
    unfolding frame_def by blast
  from f have b: "\<forall>e \<in> set (log (snd ?R)) - set (log st).
        \<forall>x. added_id e = Some x \<longrightarrow> x \<notin> existing_tmdb st \<and> x \<in> existing_tmdb (snd ?R)"
    unfolding frame_def by blast
  from f have c: "\<forall>m \<in> set (posted (snd ?R)) - set (posted st).
        \<forall>x. tmdbId m = Some x \<longrightarrow> x \<notin> existing_tmdb st"
    unfolding frame_def by blast
  have d: "tmdbId selected = Some x \<and> x \<noteq> 0 \<and> x \<in> existing_tmdb st \<longrightarrow>
        handle_selected env cfg idx term selected st
          = (Next, log_event (DUP (idx + 1) x) (st\<lparr>duplicates := duplicates st + 1\<rparr>))
        \<and> posted (snd (handle_selected env cfg idx term selected st)) = posted st
        \<and> dryrun_hits (snd (handle_selected env cfg idx term selected st)) = dryrun_hits st"
    by (simp add: handle_selected_def Let_def log_event_def)
  from a b c d show ?thesis by blast
qed

theorem duplicate_index_monotone_witness:
  "tmdbId (numbered 348) = Some 348 \<and> (348::int) \<noteq> 0 \<and> 348 \<in> existing_tmdb seeded_run
   \<and> handle_selected same_env auto_cfg 1 ''B'' (numbered 348) seeded_run
       = (Next, log_event (DUP 2 348) (seeded_run\<lparr>duplicates := 1\<rparr>))
   \<and> log (snd (main_loop same_env auto_cfg four_lines 0 init_run))
       = [ADD 1 348, DUP 2 348, DUP 3 348, DUP 4 348]
   \<and> ADD 1 348 \<in> set (log (snd (main_loop same_env auto_cfg four_lines 0 init_run)))
         - set (log init_run)
   \<and> added_id (ADD 1 348) = Some 348
   \<and> 348 \<notin> existing_tmdb init_run
   \<and> 348 \<in> existing_tmdb (snd (main_loop same_env auto_cfg four_lines 0 init_run))"
proof -
  have h: "tmdbId (numbered 348) = Some 348 \<and> (348::int) \<noteq> 0 \<and> 348 \<in> existing_tmdb seeded_run"
    by (simp add: numbered_def seeded_run_def)
  have l: "log (snd (main_loop same_env auto_cfg four_lines 0 init_run))
       = [ADD 1 348, DUP 2 348, DUP 3 348, DUP 4 348]" by code_simp
  have i: "log init_run = []" by (simp add: init_run_def)
  from l i have e: "ADD 1 348 \<in> set (log (snd (main_loop same_env auto_cfg four_lines 0 init_run)))
         - set (log init_run)" by simp
  have ai: "added_id (ADD 1 348) = Some 348" by simp
  have d0: "duplicates seeded_run = 0" by (simp add: seeded_run_def init_run_def)
  note t1 = duplicate_index_monotone [of seeded_run same_env auto_cfg four_lines 1 "numbered 348"
      348 "''B''"]
  from t1 h have "handle_selected same_env auto_cfg 1 ''B'' (numbered 348) seeded_run
       = (Next, log_event (DUP (1 + 1) 348) (seeded_run\<lparr>duplicates := duplicates seeded_run + 1\<rparr>))"
    by blast
  with d0 have a: "handle_selected same_env auto_cfg 1 ''B'' (numbered 348) seeded_run
       = (Next, log_event (DUP 2 348) (seeded_run\<lparr>duplicates := 1\<rparr>))" by simp
  note t2 = duplicate_index_monotone [of init_run same_env auto_cfg four_lines 0 "numbered 348"
      348 "''B''"]
  from t2 e ai have "348 \<notin> existing_tmdb init_run
      \<and> 348 \<in> existing_tmdb (snd (main_loop same_env auto_cfg four_lines 0 init_run))"
    by blast
  with h a l e ai show ?thesis by blast
qed


section \<open>Disambiguation prompt\<close>

lemma digit_answer:
  assumes "str_isdigit ans"
  shows "ans \<noteq> ''''" and "ans \<notin> set [''s'', ''skip'']" and "ans \<notin> set [''q'', ''quit'']"
    and "ans \<noteq> ''a''"
  using assms by (auto simp: str_isdigit_def isdigit_def isdecimal_def)

lemma resolve_filtered_prompt:
  assumes "INTERACTIVE_ON_ISSUES cfg" and "\<not> always_continue st" and "length filtered > 1"
    and "shortcut term filtered desired_year = None" and "stdin st = a # rest"
  shows "resolve_filtered cfg term filtered desired_year st
           = choose_loop cfg (take 8 filtered) (a # rest)
               (log_event (AMBIG term (take 8 filtered)) st)"
proof -
  from assms(3) have "filtered \<noteq> []" by auto
  with assms show ?thesis
    by (simp add: resolve_filtered_def Let_def MAX_CHOICES_TO_SHOW_def log_event_def)
qed


text \<open>The issue prompt takes the word \<open>always\<close> and sets the flag.\<close>

lemma always_word_at_issue_prompt:
  "prompt_continue live_cfg (answer_run ''always'')
     = (Ret True, init_run\<lparr>always_continue := True\<rparr>)"
  by code_simp

text \<open>
  What the prompt does with the answers it knows. When more than one candidate
  remains, the shortcut does not apply, the issue prompts are interactive and the
  sticky flag is not set: the candidates shown are the first 8 of the remaining
  ones in their order, and they are logged. An empty answer returns no selection
  (skip), \<open>quit\<close> returns \<open>ABORT\<close>, a number that \<open>int\<close> converts and that is
  below the count of shown candidates returns the candidate at that position, and
  the answer \<open>a\<close> sets \<open>always_continue\<close> and returns the first candidate. Once
  the flag is set, resolution returns the first remaining candidate without asking,
  and the loop over the lines never resets the flag.
\<close>

theorem disambiguation_prompt:
  assumes "INTERACTIVE_ON_ISSUES cfg" and "\<not> always_continue st" and "length filtered > 1"
    and "shortcut term filtered desired_year = None" and "stdin st = a # rest"
  shows "take MAX_CHOICES_TO_SHOW filtered = take 8 filtered
    \<and> length (take MAX_CHOICES_TO_SHOW filtered) \<le> 8
    \<and> log (snd (resolve_filtered cfg term filtered desired_year st))
        = log st @ [AMBIG term (take 8 filtered)]
    \<and> (lower (strip a) = '''' \<longrightarrow>
         resolve_filtered cfg term filtered desired_year st
           = (Ret NoSelection, (log_event (AMBIG term (take 8 filtered)) st)\<lparr>stdin := rest\<rparr>))
    \<and> (lower (strip a) = ''quit'' \<longrightarrow>
         resolve_filtered cfg term filtered desired_year st
           = (Ret ABORT, (log_event (AMBIG term (take 8 filtered)) st)\<lparr>stdin := rest\<rparr>))
    \<and> (str_isdigit (lower (strip a)) \<and> int_of_str cfg (lower (strip a)) = Some i
         \<and> 0 \<le> i \<and> nat i < length (take 8 filtered) \<longrightarrow>
         resolve_filtered cfg term filtered desired_year st
           = (Ret (Selected (filtered ! nat i)),
              (log_event (AMBIG term (take 8 filtered)) st)\<lparr>stdin := rest\<rparr>))
    \<and> (str_isdigit (lower (strip a)) \<and> int_of_str cfg (lower (strip a)) = None \<longrightarrow>
         resolve_filtered cfg term filtered desired_year st
           = (Raised ValueError, (log_event (AMBIG term (take 8 filtered)) st)\<lparr>stdin := rest\<rparr>))
    \<and> (lower (strip a) = ''a'' \<longrightarrow>
         resolve_filtered cfg term filtered desired_year st
           = (Ret (Selected (filtered ! 0)),
              (log_event (AMBIG term (take 8 filtered)) st)
                \<lparr>stdin := rest, always_continue := True\<rparr>))
    \<and> (always_continue st' \<and> filtered' \<noteq> [] \<and> shortcut term' filtered' desired_year' = None
         \<longrightarrow> resolve_filtered cfg term' filtered' desired_year' st'
               = (Ret (Selected (filtered' ! 0)), st'))
    \<and> (always_continue st'
         \<longrightarrow> always_continue (snd (main_loop env cfg' movies idx st')))"
proof -
  let ?shown = "take 8 filtered"
  let ?s1 = "log_event (AMBIG term ?shown) st"
  note r = resolve_filtered_prompt [OF assms]
  from assms(3) obtain m ms where ms: "?shown = m # ms" and m: "m = filtered ! 0"
    by (cases filtered) auto
  have c1: "take MAX_CHOICES_TO_SHOW filtered = take 8 filtered"
    by (simp add: MAX_CHOICES_TO_SHOW_def)
  have c2: "length (take MAX_CHOICES_TO_SHOW filtered) \<le> 8"
    by (simp add: MAX_CHOICES_TO_SHOW_def)
  have "log (snd (choose_loop cfg ?shown (a # rest) ?s1)) = log ?s1"
    by (rule only_io_fields(1) [OF choose_loop_io])
  with r have c3: "log (snd (resolve_filtered cfg term filtered desired_year st))
        = log st @ [AMBIG term (take 8 filtered)]"
    by (simp add: log_event_def)
  have c4: "lower (strip a) = '''' \<longrightarrow>
         resolve_filtered cfg term filtered desired_year st
           = (Ret NoSelection, ?s1\<lparr>stdin := rest\<rparr>)"
    using r by simp
  have c5: "lower (strip a) = ''quit'' \<longrightarrow>
         resolve_filtered cfg term filtered desired_year st
           = (Ret ABORT, ?s1\<lparr>stdin := rest\<rparr>)"
    using r by simp
  have c6: "str_isdigit (lower (strip a)) \<and> int_of_str cfg (lower (strip a)) = Some i
         \<and> 0 \<le> i \<and> nat i < length ?shown \<longrightarrow>
         resolve_filtered cfg term filtered desired_year st
           = (Ret (Selected (filtered ! nat i)), ?s1\<lparr>stdin := rest\<rparr>)"
  proof
    assume d: "str_isdigit (lower (strip a)) \<and> int_of_str cfg (lower (strip a)) = Some i
         \<and> 0 \<le> i \<and> nat i < length ?shown"
    then have "?shown ! nat i = filtered ! nat i" by simp
    with d digit_answer [of "lower (strip a)"] r
    show "resolve_filtered cfg term filtered desired_year st
           = (Ret (Selected (filtered ! nat i)), ?s1\<lparr>stdin := rest\<rparr>)"
      by (simp add: Let_def)
  qed
  have c6': "str_isdigit (lower (strip a)) \<and> int_of_str cfg (lower (strip a)) = None \<longrightarrow>
         resolve_filtered cfg term filtered desired_year st
           = (Raised ValueError, ?s1\<lparr>stdin := rest\<rparr>)"
  proof
    assume d: "str_isdigit (lower (strip a)) \<and> int_of_str cfg (lower (strip a)) = None"
    with digit_answer [of "lower (strip a)"] r
    show "resolve_filtered cfg term filtered desired_year st
           = (Raised ValueError, ?s1\<lparr>stdin := rest\<rparr>)"
      by (simp add: Let_def)
  qed
  have c7: "lower (strip a) = ''a'' \<longrightarrow>
         resolve_filtered cfg term filtered desired_year st
           = (Ret (Selected (filtered ! 0)), ?s1\<lparr>stdin := rest, always_continue := True\<rparr>)"
    using r ms m by simp
  have c8: "always_continue st' \<and> filtered' \<noteq> [] \<and> shortcut term' filtered' desired_year' = None
         \<longrightarrow> resolve_filtered cfg term' filtered' desired_year' st'
               = (Ret (Selected (filtered' ! 0)), st')"
    by (simp add: resolve_filtered_def)
  have c9: "always_continue st' \<longrightarrow> always_continue (snd (main_loop env cfg' movies idx st'))"
    using main_loop_frame [of idx st' env cfg' movies] unfolding frame_def by blast
  from c1 c2 c3 c4 c5 c6 c6' c7 c8 c9 show ?thesis by (intro conjI)
qed

theorem disambiguation_prompt_witness:
  "INTERACTIVE_ON_ISSUES live_cfg \<and> \<not> always_continue enter_run
   \<and> length [aliens_1999, alien_1999] > 1
   \<and> shortcut ''Alien (1999)'' [aliens_1999, alien_1999] (Some 1999) = None
   \<and> stdin enter_run = ['''']
   \<and> resolve_filtered live_cfg ''Alien (1999)'' [aliens_1999, alien_1999] (Some 1999) enter_run
       = (Ret NoSelection,
          (log_event (AMBIG ''Alien (1999)'' [aliens_1999, alien_1999]) enter_run)\<lparr>stdin := []\<rparr>)
   \<and> stdin (answer_run ''1'') = [''1'']
   \<and> resolve_filtered live_cfg ''Alien (1999)'' [aliens_1999, alien_1999] (Some 1999)
        (answer_run ''1'')
       = (Ret (Selected alien_1999),
          (log_event (AMBIG ''Alien (1999)'' [aliens_1999, alien_1999]) (answer_run ''1''))
            \<lparr>stdin := []\<rparr>)
   \<and> stdin (answer_run '' A'') = ['' A'']
   \<and> resolve_filtered live_cfg ''Alien (1999)'' [aliens_1999, alien_1999] (Some 1999)
        (answer_run '' A'')
       = (Ret (Selected aliens_1999),
          (log_event (AMBIG ''Alien (1999)'' [aliens_1999, alien_1999]) (answer_run '' A''))
            \<lparr>stdin := [], always_continue := True\<rparr>)
   \<and> resolve_filtered live_cfg ''Alien (1999)'' [aliens_1999, alien_1999] (Some 1999)
        (answer_run [char_of (178::nat)])
       = (Raised ValueError,
          (log_event (AMBIG ''Alien (1999)'' [aliens_1999, alien_1999])
             (answer_run [char_of (178::nat)]))\<lparr>stdin := []\<rparr>)"
proof -
  have i: "INTERACTIVE_ON_ISSUES live_cfg" by (simp add: live_cfg_def)
  have l: "length [aliens_1999, alien_1999] > 1" by simp
  have s: "shortcut ''Alien (1999)'' [aliens_1999, alien_1999] (Some 1999) = None"
    by (rule shortcut_year)
  have n0: "\<not> always_continue enter_run" and i0: "stdin enter_run = ['''']"
    by (simp_all add: enter_run_def init_run_def)
  have n1: "\<not> always_continue (answer_run ''1'')" and i1: "stdin (answer_run ''1'') = [''1'']"
    by (simp_all add: answer_run_def init_run_def)
  have n2: "\<not> always_continue (answer_run '' A'')" and i2: "stdin (answer_run '' A'') = ['' A'']"
    by (simp_all add: answer_run_def init_run_def)
  have n3: "\<not> always_continue (answer_run [char_of (178::nat)])"
    and i3: "stdin (answer_run [char_of (178::nat)]) = [[char_of (178::nat)]]"
    by (simp_all add: answer_run_def init_run_def)
  have a0: "lower (strip '''') = ''''" by code_simp
  have a1: "str_isdigit (lower (strip ''1'')) \<and> int_of_str live_cfg (lower (strip ''1'')) = Some 1
      \<and> (0::int) \<le> 1 \<and> nat 1 < length (take 8 [aliens_1999, alien_1999])"
    by code_simp
  have a2: "lower (strip '' A'') = ''a''" by code_simp
  have a3: "str_isdigit (lower (strip [char_of (178::nat)]))
      \<and> int_of_str live_cfg (lower (strip [char_of (178::nat)])) = None"
    by code_simp
  have t: "take 8 [aliens_1999, alien_1999] = [aliens_1999, alien_1999]" by simp
  from disambiguation_prompt [OF i n0 l s i0] a0 t
  have r0: "resolve_filtered live_cfg ''Alien (1999)'' [aliens_1999, alien_1999] (Some 1999) enter_run
       = (Ret NoSelection,
          (log_event (AMBIG ''Alien (1999)'' [aliens_1999, alien_1999]) enter_run)\<lparr>stdin := []\<rparr>)"
    by simp
  from disambiguation_prompt [OF i n1 l s i1, where i = 1] a1 t
  have r1: "resolve_filtered live_cfg ''Alien (1999)'' [aliens_1999, alien_1999] (Some 1999)
        (answer_run ''1'')
       = (Ret (Selected alien_1999),
          (log_event (AMBIG ''Alien (1999)'' [aliens_1999, alien_1999]) (answer_run ''1''))
            \<lparr>stdin := []\<rparr>)"
    by simp
  from disambiguation_prompt [OF i n2 l s i2] a2 t
  have r2: "resolve_filtered live_cfg ''Alien (1999)'' [aliens_1999, alien_1999] (Some 1999)
        (answer_run '' A'')
       = (Ret (Selected aliens_1999),
          (log_event (AMBIG ''Alien (1999)'' [aliens_1999, alien_1999]) (answer_run '' A''))
            \<lparr>stdin := [], always_continue := True\<rparr>)"
    by simp
  from disambiguation_prompt [OF i n3 l s i3] a3 t
  have r3: "resolve_filtered live_cfg ''Alien (1999)'' [aliens_1999, alien_1999] (Some 1999)
        (answer_run [char_of (178::nat)])
       = (Raised ValueError,
          (log_event (AMBIG ''Alien (1999)'' [aliens_1999, alien_1999])
             (answer_run [char_of (178::nat)]))\<lparr>stdin := []\<rparr>)"
    by simp
  from i n0 l s i0 r0 i1 r1 i2 r2 r3 show ?thesis by (intro conjI)
qed


section \<open>Characters outside ASCII\<close>

text \<open>
  A no-break space (code point 160) after the year is whitespace for the pattern
  and for \<open>strip\<close>. For \<open>int\<close> it is whitespace as well, while the unit
  separator (code point 31) is not.
\<close>

lemma parse_title_year_nbsp:
  "parse_title_year (''Foo (1999)'' @ [char_of (160::nat)]) = (''Foo'', Some 1999)"
  by code_simp

lemma int_of_str_spaces:
  "int_of_str live_cfg (char_of (160::nat) # ''2'') = Some 2
   \<and> int_of_str live_cfg (char_of (31::nat) # ''2'') = None"
  by code_simp

end
